theory Spec2Isabelle
  imports Main "HOL-Library.Word"
begin

section \<open>Outcomes: returned errors and run-time panics\<close>

text \<open>
  The error values of \<^verbatim>\<open>util/errors.go\<close> and of package \<^verbatim>\<open>tlv\<close> (its
  \<^verbatim>\<open>errors.go\<close>). The two packages declare separate values, so
  \<^verbatim>\<open>util.ErrTooShort\<close> and \<^verbatim>\<open>tlv.ErrTooShort\<close> are different errors.
  A Go run-time panic (index out of range, nil dereference) is not a returned error and
  is kept apart from them.
\<close>

type_synonym byte = "8 word"

datatype error =
    util_ErrDecodeNameComponent
  | util_ErrNonExistent
  | util_ErrOutOfRange
  | util_ErrTooLong
  | util_ErrTooShort
  | tlv_ErrBufferTooShort
  | tlv_ErrMissingLength
  | tlv_ErrOutOfRange
  | tlv_ErrTooLong
  | tlv_ErrTooShort
  | tlv_ErrUnrecognized

datatype failure = Error error | Panic

section \<open>Big-endian numbers\<close>

text \<open>
  \<open>be_bytes k n\<close> is the \<open>k\<close>-byte big-endian form of \<open>n\<close> (most significant byte
  first), \<open>be_nat\<close> reads such a form back.
\<close>

fun be_bytes :: "nat \<Rightarrow> nat \<Rightarrow> byte list" where
  "be_bytes 0 n = []"
| "be_bytes (Suc k) n = be_bytes k (n div 256) @ [of_nat (n mod 256)]"

definition be_nat :: "byte list \<Rightarrow> nat" where
  "be_nat bs = foldl (\<lambda>acc b. acc * 256 + unat b) 0 bs"

text \<open>
  Go's \<^verbatim>\<open>binary.BigEndian.Uint64(b)\<close> starts with the bounds check \<^verbatim>\<open>_ = b[7]\<close>: it
  panics on a slice shorter than 8 bytes, and on a longer one reads the first 8 bytes and
  ignores the rest. \<^verbatim>\<open>PutUint64\<close> fills an 8-byte buffer.
\<close>

definition Uint64 :: "byte list \<Rightarrow> failure + 64 word" where
  "Uint64 b = (if length b < 8 then Inl Panic else Inr (of_nat (be_nat (take 8 b))))"

definition PutUint64 :: "64 word \<Rightarrow> byte list" where
  "PutUint64 v = be_bytes 8 (unat v)"

section \<open>The TLV block\<close>

text \<open>
  Package \<^verbatim>\<open>tlv\<close> (the type \<^verbatim>\<open>Block\<close>, its methods, the type-code constants) is not
  among the sources: \<^verbatim>\<open>name.go\<close> calls it, \<^verbatim>\<open>name_test.go\<close> shows some of its
  bytes. Everything in this section is modelled from the spec, which gives the block
  as a type code, a value and an optional cached wire buffer, with a subelement list
  filled by parsing the value, and the encoding as type, length of the value, value.
\<close>

text \<open>Modelled from the spec: the type \<^verbatim>\<open>tlv.Block\<close>, missing with package \<^verbatim>\<open>tlv\<close>
  (\<open>{type: uint32, value, cached_wire: optional}\<close> and the subelement list).\<close>

datatype Block = Block (btype: "32 word") (bvalue: "byte list")
  (bsubelements: "Block list") (bwire: "byte list option")

text \<open>Modelled from the spec: the type-code constants of package \<^verbatim>\<open>tlv\<close>, missing
  with it. They are untyped Go constants (\<^verbatim>\<open>name.go\<close> uses them both as \<^verbatim>\<open>uint16\<close>
  and as \<^verbatim>\<open>uint32\<close>). The spec calls them distinct reserved codes; \<^verbatim>\<open>name_test.go\<close>
  fixes Name as 0x07, the generic component as 0x08 and the segment component as 0x21;
  the others are the codes of the NDN packet format the library implements. The
  theorems use that they are distinct, as the \<^verbatim>\<open>case\<close> labels of a Go \<^verbatim>\<open>switch\<close> must
  be.\<close>

definition tlv_Name :: "'a::len word" where
  "tlv_Name = 0x07"

definition tlv_ImplicitSha256DigestComponent :: "'a::len word" where
  "tlv_ImplicitSha256DigestComponent = 0x01"

definition tlv_ParametersSha256DigestComponent :: "'a::len word" where
  "tlv_ParametersSha256DigestComponent = 0x02"

definition tlv_GenericNameComponent :: "'a::len word" where
  "tlv_GenericNameComponent = 0x08"

definition tlv_KeywordNameComponent :: "'a::len word" where
  "tlv_KeywordNameComponent = 0x20"

definition tlv_SegmentNameComponent :: "'a::len word" where
  "tlv_SegmentNameComponent = 0x21"

definition tlv_ByteOffsetNameComponent :: "'a::len word" where
  "tlv_ByteOffsetNameComponent = 0x22"

definition tlv_VersionNameComponent :: "'a::len word" where
  "tlv_VersionNameComponent = 0x23"

definition tlv_TimestampNameComponent :: "'a::len word" where
  "tlv_TimestampNameComponent = 0x24"

definition tlv_SequenceNumNameComponent :: "'a::len word" where
  "tlv_SequenceNumNameComponent = 0x25"

text \<open>Modelled from the spec: the encoder of the numbers in a TLV header (type and
  length), missing with package \<^verbatim>\<open>tlv\<close>. The spec says big-endian TLV and shows
  one-byte types and lengths (\<^verbatim>\<open>07 13 08 02 67 6f ...\<close>); larger numbers take the
  variable-size form of the NDN packet format: one byte below 253, otherwise a marker
  byte 253, 254 or 255 followed by a 2-, 4- or 8-byte big-endian number.\<close>

definition encodeVarNum :: "nat \<Rightarrow> byte list" where
  "encodeVarNum n =
     (if n < 253 then [of_nat n]
      else if n < 2 ^ 16 then 253 # be_bytes 2 n
      else if n < 2 ^ 32 then 254 # be_bytes 4 n
      else 255 # be_bytes 8 n)"

text \<open>Modelled from the spec: the decoder of these numbers, missing with package
  \<^verbatim>\<open>tlv\<close>; it returns the number and the bytes after it, or nothing when the buffer
  ends too early.\<close>

fun decodeVarNum :: "byte list \<Rightarrow> (nat \<times> byte list) option" where
  "decodeVarNum [] = None"
| "decodeVarNum (b # bs) =
     (if unat b < 253 then Some (unat b, bs)
      else let k = (if b = 253 then 2 else if b = 254 then 4 else 8)
           in if length bs < k then None else Some (be_nat (take k bs), drop k bs))"

text \<open>Modelled from the spec: \<^verbatim>\<open>tlv.NewBlock\<close>, missing with package \<^verbatim>\<open>tlv\<close>: a block
  of a type and a (copied) value, its wire not yet materialised.\<close>

definition NewBlock :: "32 word \<Rightarrow> byte list \<Rightarrow> Block" where
  "NewBlock t v = Block t v [] None"

text \<open>Modelled from the spec: the zero value \<^verbatim>\<open>tlv.Block{}\<close> of the missing type, which
  a new \<^verbatim>\<open>Name\<close> holds and \<^verbatim>\<open>Prefix\<close> assigns.\<close>

definition emptyBlock :: Block where
  "emptyBlock = Block 0 [] [] None"

text \<open>Modelled from the spec: \<^verbatim>\<open>Block.HasWire\<close>, missing with package \<^verbatim>\<open>tlv\<close>: whether
  the cached wire is there.\<close>

definition Block_HasWire :: "Block \<Rightarrow> bool" where
  "Block_HasWire b = (bwire b \<noteq> None)"

text \<open>Modelled from the spec: \<^verbatim>\<open>Block.Reset\<close>, missing with package \<^verbatim>\<open>tlv\<close>. It
  invalidates the cache; \<^verbatim>\<open>Name.Wire\<close> calls it, sets the type again and appends every
  component again, for the fresh block the spec describes there, so it empties the
  block.\<close>

definition Block_Reset :: "Block \<Rightarrow> Block" where
  "Block_Reset b = emptyBlock"

text \<open>Modelled from the spec: \<^verbatim>\<open>Block.SetType\<close>, missing with package \<^verbatim>\<open>tlv\<close>; a
  structural change, so the cached wire is dropped.\<close>

definition Block_SetType :: "Block \<Rightarrow> 32 word \<Rightarrow> Block" where
  "Block_SetType b t = Block t (bvalue b) (bsubelements b) None"

text \<open>Modelled from the spec: \<^verbatim>\<open>Block.DeepCopy\<close>, missing with package \<^verbatim>\<open>tlv\<close>: a new
  block with copies of every field, the cached wire too.\<close>

definition Block_DeepCopy :: "Block \<Rightarrow> Block" where
  "Block_DeepCopy b = Block (btype b) (bvalue b) (bsubelements b) (bwire b)"

text \<open>Modelled from the spec: the bytes \<^verbatim>\<open>Block.Wire\<close> returns (missing with package
  \<^verbatim>\<open>tlv\<close>): the cached wire when there is one, otherwise type, length and value.\<close>

definition Block_encode :: "Block \<Rightarrow> byte list" where
  "Block_encode b =
     (case bwire b of
        Some w \<Rightarrow> w
      | None \<Rightarrow> encodeVarNum (unat (btype b)) @ encodeVarNum (length (bvalue b)) @ bvalue b)"

text \<open>Modelled from the spec: \<^verbatim>\<open>Block.Wire\<close>, missing with package \<^verbatim>\<open>tlv\<close>. It returns
  the bytes and an error, and leaves the bytes cached in the block; the spec names no
  condition under which the encoding fails.\<close>

definition Block_Wire :: "Block \<Rightarrow> failure + (Block \<times> byte list)" where
  "Block_Wire b =
     Inr (Block (btype b) (bvalue b) (bsubelements b) (Some (Block_encode b)), Block_encode b)"

text \<open>Modelled from the spec: \<^verbatim>\<open>Block.Append\<close>, missing with package \<^verbatim>\<open>tlv\<close>: the
  child becomes the last subelement and its encoding the end of the value (the value of
  a Name is the concatenation of the encodings of its components, in order).\<close>

definition Block_Append :: "Block \<Rightarrow> Block \<Rightarrow> Block" where
  "Block_Append b child =
     Block (btype b) (bvalue b @ Block_encode child) (bsubelements b @ [child]) None"

text \<open>Modelled from the spec: the decoder of one block from a buffer, missing with
  package \<^verbatim>\<open>tlv\<close>. A missing length field and a length that exceeds the remaining
  buffer are the errors the spec names; a type beyond 32 bits does not fit the block.\<close>

definition decodeBlock :: "byte list \<Rightarrow> error + (Block \<times> byte list)" where
  "decodeBlock bs =
     (case decodeVarNum bs of
        None \<Rightarrow> Inl tlv_ErrBufferTooShort
      | Some (t, r1) \<Rightarrow>
          if t \<ge> 2 ^ 32 then Inl tlv_ErrOutOfRange
          else (case decodeVarNum r1 of
                  None \<Rightarrow> Inl tlv_ErrMissingLength
                | Some (l, r2) \<Rightarrow>
                    if length r2 < l then Inl tlv_ErrBufferTooShort
                    else Inr (NewBlock (of_nat t) (take l r2), drop l r2)))"

text \<open>Modelled from the spec: the loop of \<^verbatim>\<open>Block.Parse\<close>, missing with package
  \<^verbatim>\<open>tlv\<close>: the blocks of a value in wire order, up to its end or to the first block
  that does not decode, with that error.\<close>

function parseBlocks :: "byte list \<Rightarrow> Block list \<times> error option" where
  "parseBlocks bs =
     (if bs = [] then ([], None)
      else (case decodeBlock bs of
              Inl e \<Rightarrow> ([], Some e)
            | Inr (blk, rest) \<Rightarrow>
                (case parseBlocks rest of (blks, e) \<Rightarrow> (blk # blks, e))))"
  by pat_completeness auto
termination
proof (relation "measure length")
  show "wf (measure length)" by simp
next
  fix bs :: "byte list" and x2 blk rest
  assume d: "decodeBlock bs = Inr x2" and x2: "(blk, rest) = x2"
  have dv: "length r < length xs" if "decodeVarNum xs = Some (n, r)" for xs n r
    using that by (cases xs) (auto simp: Let_def split: if_splits)
  from d obtain t r1 where t: "decodeVarNum bs = Some (t, r1)"
    by (auto simp: decodeBlock_def split: option.splits)
  with d obtain l r2 where l: "decodeVarNum r1 = Some (l, r2)"
    by (auto simp: decodeBlock_def split: option.splits if_splits)
  from d t l x2 have "rest = drop l r2"
    by (auto simp: decodeBlock_def split: if_splits)
  moreover have "length r2 < length r1" "length r1 < length bs"
    using t l by (auto dest: dv)
  ultimately show "(rest, bs) \<in> measure length" by simp
qed

text \<open>Modelled from the spec: \<^verbatim>\<open>Block.Parse\<close>, missing with package \<^verbatim>\<open>tlv\<close>; it fills
  the subelement list (read by \<^verbatim>\<open>Subelements\<close>) from the value and returns an error
  when a subelement does not decode. The value is not changed, so the cached wire
  stays.\<close>

definition Block_Parse :: "Block \<Rightarrow> Block \<times> error option" where
  "Block_Parse b =
     (case parseBlocks (bvalue b) of
        (blks, e) \<Rightarrow> (Block (btype b) (bvalue b) blks (bwire b), e))"

section \<open>Name components\<close>

text \<open>
  \<^verbatim>\<open>BaseNameComponent\<close> holds the type code, the value and a cached block; the nine
  specialised components embed it and differ by their Go type only, which \<open>variant\<close>
  records.
\<close>

datatype variant = Base | ImplicitSha256Digest | ParametersSha256Digest | Generic
  | Keyword | Segment | ByteOffset | Version | Timestamp | SequenceNum

record NameComponent =
  variant :: variant
  tlvType :: "16 word"
  cvalue :: "byte list"
  cwire :: "Block option"

definition NewBaseNameComponent :: "16 word \<Rightarrow> byte list \<Rightarrow> failure + NameComponent" where
  "NewBaseNameComponent t v =
     (if length v = 0 then Inl (Error util_ErrTooShort)
      else Inr \<lparr>variant = Base, tlvType = t, cvalue = v, cwire = None\<rparr>)"

definition NewImplicitSha256DigestComponent :: "byte list \<Rightarrow> failure + NameComponent" where
  "NewImplicitSha256DigestComponent v =
     (if length v \<noteq> 32 then Inl (Error util_ErrTooShort)
      else Inr \<lparr>variant = ImplicitSha256Digest,
                tlvType = tlv_ImplicitSha256DigestComponent, cvalue = v, cwire = None\<rparr>)"

definition NewParametersSha256DigestComponent :: "byte list \<Rightarrow> failure + NameComponent" where
  "NewParametersSha256DigestComponent v =
     (if length v \<noteq> 32 then Inl (Error util_ErrTooShort)
      else Inr \<lparr>variant = ParametersSha256Digest,
                tlvType = tlv_ParametersSha256DigestComponent, cvalue = v, cwire = None\<rparr>)"

definition NewGenericNameComponent :: "byte list \<Rightarrow> failure + NameComponent" where
  "NewGenericNameComponent v =
     (if length v = 0 then Inl (Error util_ErrTooShort)
      else Inr \<lparr>variant = Generic, tlvType = tlv_GenericNameComponent,
                cvalue = v, cwire = None\<rparr>)"

definition NewKeywordNameComponent :: "byte list \<Rightarrow> failure + NameComponent" where
  "NewKeywordNameComponent v =
     (if length v = 0 then Inl (Error util_ErrTooShort)
      else Inr \<lparr>variant = Keyword, tlvType = tlv_KeywordNameComponent,
                cvalue = v, cwire = None\<rparr>)"

definition NewSegmentNameComponent :: "64 word \<Rightarrow> failure + NameComponent" where
  "NewSegmentNameComponent v =
     Inr \<lparr>variant = Segment, tlvType = tlv_SegmentNameComponent,
          cvalue = PutUint64 v, cwire = None\<rparr>"

definition NewByteOffsetNameComponent :: "64 word \<Rightarrow> failure + NameComponent" where
  "NewByteOffsetNameComponent v =
     Inr \<lparr>variant = ByteOffset, tlvType = tlv_ByteOffsetNameComponent,
          cvalue = PutUint64 v, cwire = None\<rparr>"

definition NewVersionNameComponent :: "64 word \<Rightarrow> failure + NameComponent" where
  "NewVersionNameComponent v =
     Inr \<lparr>variant = Version, tlvType = tlv_VersionNameComponent,
          cvalue = PutUint64 v, cwire = None\<rparr>"

definition NewTimestampNameComponent :: "64 word \<Rightarrow> failure + NameComponent" where
  "NewTimestampNameComponent v =
     Inr \<lparr>variant = Timestamp, tlvType = tlv_TimestampNameComponent,
          cvalue = PutUint64 v, cwire = None\<rparr>"

definition NewSequenceNumNameComponent :: "64 word \<Rightarrow> failure + NameComponent" where
  "NewSequenceNumNameComponent v =
     Inr \<lparr>variant = SequenceNum, tlvType = tlv_SequenceNumNameComponent,
          cvalue = PutUint64 v, cwire = None\<rparr>"

text \<open>\<^verbatim>\<open>DeepCopy\<close> copies type code and value into a new component of the same Go
  type; the cached block is not copied.\<close>

definition DeepCopy :: "NameComponent \<Rightarrow> NameComponent" where
  "DeepCopy c = \<lparr>variant = variant c, tlvType = tlvType c, cvalue = cvalue c, cwire = None\<rparr>"

definition Type :: "NameComponent \<Rightarrow> 16 word" where
  "Type c = tlvType c"

definition Value :: "NameComponent \<Rightarrow> byte list" where
  "Value c = cvalue c"

text \<open>\<^verbatim>\<open>Wire\<close> of a component: the cached block is rebuilt unless it is there and has
  a wire; a deep copy is returned. The component, with its cache, is returned too.\<close>

definition Component_Wire :: "NameComponent \<Rightarrow> NameComponent \<times> Block" where
  "Component_Wire c =
     (let w = (case cwire c of
                 None \<Rightarrow> NewBlock (ucast (tlvType c)) (cvalue c)
               | Some b \<Rightarrow> if \<not> Block_HasWire b then NewBlock (ucast (tlvType c)) (cvalue c)
                           else b)
      in (c\<lparr>cwire := Some w\<rparr>, Block_DeepCopy w))"

text \<open>The numeric cases of \<^verbatim>\<open>DecodeNameComponent\<close> evaluate
  \<^verbatim>\<open>binary.BigEndian.Uint64(wire.Value())\<close> before the constructor is called.\<close>

definition DecodeNameComponent :: "Block option \<Rightarrow> failure + NameComponent" where
  "DecodeNameComponent wire =
     (case wire of
        None \<Rightarrow> Inl (Error util_ErrNonExistent)
      | Some w \<Rightarrow>
          if length (bvalue w) = 0 then Inl (Error tlv_ErrBufferTooShort)
          else if btype w = tlv_ImplicitSha256DigestComponent
            then NewImplicitSha256DigestComponent (bvalue w)
          else if btype w = tlv_ParametersSha256DigestComponent
            then NewParametersSha256DigestComponent (bvalue w)
          else if btype w = tlv_GenericNameComponent
            then NewGenericNameComponent (bvalue w)
          else if btype w = tlv_KeywordNameComponent
            then NewKeywordNameComponent (bvalue w)
          else if btype w = tlv_SegmentNameComponent
            then (case Uint64 (bvalue w) of Inl f \<Rightarrow> Inl f
                  | Inr v \<Rightarrow> NewSegmentNameComponent v)
          else if btype w = tlv_ByteOffsetNameComponent
            then (case Uint64 (bvalue w) of Inl f \<Rightarrow> Inl f
                  | Inr v \<Rightarrow> NewByteOffsetNameComponent v)
          else if btype w = tlv_VersionNameComponent
            then (case Uint64 (bvalue w) of Inl f \<Rightarrow> Inl f
                  | Inr v \<Rightarrow> NewVersionNameComponent v)
          else if btype w = tlv_TimestampNameComponent
            then (case Uint64 (bvalue w) of Inl f \<Rightarrow> Inl f
                  | Inr v \<Rightarrow> NewTimestampNameComponent v)
          else if btype w = tlv_SequenceNumNameComponent
            then (case Uint64 (bvalue w) of Inl f \<Rightarrow> Inl f
                  | Inr v \<Rightarrow> NewSequenceNumNameComponent v)
          else if btype w > 0xFFFF then Inl (Error util_ErrOutOfRange)
          else NewBaseNameComponent (ucast (btype w)) (bvalue w))"

section \<open>Names\<close>

record Name =
  components :: "NameComponent list"
  wire :: Block

definition NewName :: Name where
  "NewName = \<lparr>components = [], wire = emptyBlock\<rparr>"

definition Size :: "Name \<Rightarrow> int" where
  "Size n = int (length (components n))"

definition HasWire :: "Name \<Rightarrow> bool" where
  "HasWire n = Block_HasWire (wire n)"

text \<open>\<^verbatim>\<open>Append\<close>, \<^verbatim>\<open>Set\<close>: \<open>Inl\<close> is the returned error (or the panic of calling
  \<^verbatim>\<open>DeepCopy\<close> on a nil component); the name is then as it was.\<close>

definition Append :: "Name \<Rightarrow> NameComponent option \<Rightarrow> failure + Name" where
  "Append n component =
     (case component of
        None \<Rightarrow> Inl (Error util_ErrNonExistent)
      | Some c \<Rightarrow> Inr (n\<lparr>components := components n @ [DeepCopy c],
                         wire := Block_Reset (wire n)\<rparr>))"

definition At :: "Name \<Rightarrow> int \<Rightarrow> NameComponent option" where
  "At n index =
     (if index < 0 \<or> index \<ge> int (length (components n)) then None
      else Some (components n ! nat index))"

definition Clear :: "Name \<Rightarrow> Name" where
  "Clear n =
     (if length (components n) > 0
      then n\<lparr>components := [], wire := Block_Reset (wire n)\<rparr>
      else n)"

definition Name_DeepCopy :: "Name \<Rightarrow> Name" where
  "Name_DeepCopy n = \<lparr>components = map DeepCopy (components n), wire = emptyBlock\<rparr>"

text \<open>The loop shared by \<^verbatim>\<open>Equals\<close> and \<^verbatim>\<open>PrefixOf\<close>: positions \<open>i\<close> up to
  \<^verbatim>\<open>n.Size()\<close>, comparing type code and value. \<^verbatim>\<open>At\<close> returns nil out of range,
  and calling \<^verbatim>\<open>Type\<close> on nil panics.\<close>

function match_from :: "Name \<Rightarrow> Name \<Rightarrow> int \<Rightarrow> failure + bool" where
  "match_from n other i =
     (if i < Size n then
        (case (At n i, At other i) of
           (Some a, Some b) \<Rightarrow>
             if Type a \<noteq> Type b \<or> Value a \<noteq> Value b then Inr False
             else match_from n other (i + 1)
         | _ \<Rightarrow> Inl Panic)
      else Inr True)"
  by pat_completeness auto
termination
  by (relation "measure (\<lambda>(n, other, i). nat (Size n - i))") auto

text \<open>\<^verbatim>\<open>Equals\<close> dereferences \<^verbatim>\<open>other\<close> at once (\<^verbatim>\<open>other.Size()\<close>); \<^verbatim>\<open>PrefixOf\<close>
  checks it for nil first.\<close>

definition Equals :: "Name \<Rightarrow> Name option \<Rightarrow> failure + bool" where
  "Equals n other =
     (case other of
        None \<Rightarrow> Inl Panic
      | Some other' \<Rightarrow>
          if Size n \<noteq> Size other' then Inr False else match_from n other' 0)"

definition PrefixOf :: "Name \<Rightarrow> Name option \<Rightarrow> failure + bool" where
  "PrefixOf n other =
     (case other of
        None \<Rightarrow> Inr False
      | Some other' \<Rightarrow>
          if Size n > Size other' then Inr False else match_from n other' 0)"

definition Erase :: "Name \<Rightarrow> int \<Rightarrow> Name" where
  "Erase n index =
     (if index < 0 \<or> index \<ge> int (length (components n)) then n
      else n\<lparr>components := take (nat index) (components n) @ drop (nat index + 1) (components n),
              wire := Block_Reset (wire n)\<rparr>)"

text \<open>\<^verbatim>\<open>Prefix\<close>: the loop runs \<open>i\<close> from 0 while \<^verbatim>\<open>i < size\<close> (here \<open>sz\<close>) and reads
  \<^verbatim>\<open>n.components[i]\<close> with no check against the length; Go panics on an index out of
  range.\<close>

function Prefix_loop :: "Name \<Rightarrow> int \<Rightarrow> int \<Rightarrow> NameComponent list
    \<Rightarrow> failure + NameComponent list" where
  "Prefix_loop n sz i acc =
     (if i < sz then
        (if i < 0 \<or> i \<ge> int (length (components n)) then Inl Panic
         else Prefix_loop n sz (i + 1) (acc @ [DeepCopy (components n ! nat i)]))
      else Inr acc)"
  by pat_completeness auto
termination
  by (relation "measure (\<lambda>(n, sz, i, acc). nat (sz - i))") auto

definition Prefix :: "Name \<Rightarrow> int \<Rightarrow> failure + Name" where
  "Prefix n sz =
     (case Prefix_loop n sz 0 [] of
        Inl f \<Rightarrow> Inl f
      | Inr cs \<Rightarrow> Inr \<lparr>components = cs, wire = emptyBlock\<rparr>)"

definition Set :: "Name \<Rightarrow> int \<Rightarrow> NameComponent option \<Rightarrow> failure + Name" where
  "Set n index component =
     (if index < 0 \<or> index \<ge> int (length (components n)) then Inl (Error util_ErrOutOfRange)
      else (case component of
              None \<Rightarrow> Inl Panic
            | Some c \<Rightarrow> Inr (n\<lparr>components := (components n)[nat index := DeepCopy c],
                               wire := Block_Reset (wire n)\<rparr>)))"

text \<open>\<^verbatim>\<open>Wire\<close> of a name: with no cached wire the block is reset, tagged as a Name and
  filled with the blocks of the components, in order, then encoded. A deep copy of the
  cached block is returned, with the name as it is after the call.\<close>

fun Wire_loop :: "NameComponent list \<Rightarrow> Block \<Rightarrow> NameComponent list \<times> Block" where
  "Wire_loop [] w = ([], w)"
| "Wire_loop (c # cs) w =
     (case Component_Wire c of (c', b) \<Rightarrow>
        (case Wire_loop cs (Block_Append w b) of (cs', w') \<Rightarrow> (c' # cs', w')))"

definition Name_Wire :: "Name \<Rightarrow> Name \<times> Block" where
  "Name_Wire n =
     (if \<not> Block_HasWire (wire n) then
        (case Wire_loop (components n) (Block_SetType (Block_Reset (wire n)) tlv_Name) of
           (cs', w) \<Rightarrow>
             (let w' = (case Block_Wire w of Inr (w1, bytes) \<Rightarrow> w1 | Inl f \<Rightarrow> w)
              in (\<lparr>components = cs', wire = w'\<rparr>, Block_DeepCopy w')))
      else (n, Block_DeepCopy (wire n)))"

text \<open>\<^verbatim>\<open>DecodeName\<close>: the results of \<^verbatim>\<open>b.Parse()\<close>, of \<^verbatim>\<open>n.Append(component)\<close> and
  of the last \<^verbatim>\<open>n.wire.Wire()\<close> are not looked at.\<close>

fun DecodeName_loop :: "Name \<Rightarrow> Block list \<Rightarrow> failure + Name" where
  "DecodeName_loop n [] = Inr n"
| "DecodeName_loop n (elem # elems) =
     (case DecodeNameComponent (Some elem) of
        Inl err \<Rightarrow> Inl err
      | Inr component \<Rightarrow>
          (case Append n (Some component) of
             Inl err \<Rightarrow> DecodeName_loop n elems
           | Inr n' \<Rightarrow> DecodeName_loop n' elems))"

definition DecodeName :: "Block option \<Rightarrow> failure + Name" where
  "DecodeName b =
     (case b of
        None \<Rightarrow> Inl (Error util_ErrNonExistent)
      | Some b0 \<Rightarrow>
          (case Block_Wire b0 of
             Inl err \<Rightarrow> Inl err
           | Inr (b1, bytes) \<Rightarrow>
               if btype b1 \<noteq> tlv_Name then Inl (Error tlv_ErrUnrecognized)
               else (case Block_Parse b1 of (b2, perr) \<Rightarrow>
                 (case DecodeName_loop NewName (bsubelements b2) of
                    Inl err \<Rightarrow> Inl err
                  | Inr n \<Rightarrow>
                      (let w = Block_DeepCopy b2;
                           w' = (case Block_Wire w of Inr (w1, bs) \<Rightarrow> w1 | Inl f \<Rightarrow> w)
                       in Inr (n\<lparr>wire := w'\<rparr>))))))"

text \<open>The wire bytes of a block a caller holds: \<^verbatim>\<open>b.Wire()\<close>.\<close>

definition wire_bytes :: "Block \<Rightarrow> byte list" where
  "wire_bytes b = (case Block_Wire b of Inr (b', bytes) \<Rightarrow> bytes | Inl f \<Rightarrow> [])"

section \<open>The canonical order\<close>

text \<open>
  \<^verbatim>\<open>Name.Compare\<close> is called by \<^verbatim>\<open>TestNameCompare\<close> in \<^verbatim>\<open>name_test.go\<close>, but
  \<^verbatim>\<open>name.go\<close> does not define it. It is modelled from the spec: components are
  compared pairwise by position; for each pair the value lengths are compared first
  (shorter first), then, for equal lengths, the value bytes lexicographically, then the
  type codes (lower first); a name that is a strict prefix of another sorts before it.
  The result is -1, 0 or 1.
\<close>

text \<open>Modelled from the spec: the lexicographic comparison of value bytes that the
  missing \<^verbatim>\<open>Name.Compare\<close> makes.\<close>

fun compare_bytes :: "byte list \<Rightarrow> byte list \<Rightarrow> int" where
  "compare_bytes [] [] = 0"
| "compare_bytes [] (y # ys) = -1"
| "compare_bytes (x # xs) [] = 1"
| "compare_bytes (x # xs) (y # ys) =
     (if x < y then -1 else if y < x then 1 else compare_bytes xs ys)"

text \<open>Modelled from the spec: the comparison of one pair of components in the missing
  \<^verbatim>\<open>Name.Compare\<close>: value length, then value bytes, then type code.\<close>

definition compare_component :: "NameComponent \<Rightarrow> NameComponent \<Rightarrow> int" where
  "compare_component a b =
     (if length (Value a) < length (Value b) then -1
      else if length (Value b) < length (Value a) then 1
      else if compare_bytes (Value a) (Value b) \<noteq> 0 then compare_bytes (Value a) (Value b)
      else if Type a < Type b then -1
      else if Type b < Type a then 1
      else 0)"

text \<open>Modelled from the spec: the loop of the missing \<^verbatim>\<open>Name.Compare\<close> over the
  positions; the name that ends first, all pairs before being equal, is the smaller.\<close>

fun compare_components :: "NameComponent list \<Rightarrow> NameComponent list \<Rightarrow> int" where
  "compare_components [] [] = 0"
| "compare_components [] (b # bs) = -1"
| "compare_components (a # as) [] = 1"
| "compare_components (a # as) (b # bs) =
     (if compare_component a b \<noteq> 0 then compare_component a b
      else compare_components as bs)"

text \<open>Modelled from the spec: \<^verbatim>\<open>Name.Compare\<close>, missing from \<^verbatim>\<open>name.go\<close>.\<close>

definition Compare :: "Name \<Rightarrow> Name \<Rightarrow> int" where
  "Compare n other = compare_components (components n) (components other)"

section \<open>Valid names\<close>

text \<open>
  A component is valid when its value has the shape the spec's table of variants gives
  for its type code: 32 bytes for the two digest codes, 8 bytes for the five
  fixed-width numeric codes, at least one byte otherwise. Its cached block, when there
  is one, is the unencoded block \<^verbatim>\<open>Wire\<close> left there.
\<close>

definition digest_code :: "16 word \<Rightarrow> bool" where
  "digest_code t =
     (t = tlv_ImplicitSha256DigestComponent \<or> t = tlv_ParametersSha256DigestComponent)"

definition fixed_width_code :: "16 word \<Rightarrow> bool" where
  "fixed_width_code t =
     (t = tlv_SegmentNameComponent \<or> t = tlv_ByteOffsetNameComponent
      \<or> t = tlv_VersionNameComponent \<or> t = tlv_TimestampNameComponent
      \<or> t = tlv_SequenceNumNameComponent)"

definition valid_component :: "NameComponent \<Rightarrow> bool" where
  "valid_component c =
     ((if digest_code (tlvType c) then length (cvalue c) = 32
       else if fixed_width_code (tlvType c) then length (cvalue c) = 8
       else 1 \<le> length (cvalue c))
      \<and> (case cwire c of None \<Rightarrow> True | Some b \<Rightarrow> \<not> Block_HasWire b))"

text \<open>Two components match when type code and value bytes agree, as \<^verbatim>\<open>Equals\<close> and
  \<^verbatim>\<open>PrefixOf\<close> test them.\<close>

definition same_component :: "NameComponent \<Rightarrow> NameComponent \<Rightarrow> bool" where
  "same_component a b = (Type a = Type b \<and> Value a = Value b)"

text \<open>The block \<^verbatim>\<open>Wire\<close> of a component builds when it has no encoded cache, the
  value of a Name block holding these blocks, and the Name block \<^verbatim>\<open>Wire\<close> of a name
  builds from them.\<close>

definition comp_block :: "NameComponent \<Rightarrow> Block" where
  "comp_block c = NewBlock (ucast (tlvType c)) (cvalue c)"

definition name_payload :: "NameComponent list \<Rightarrow> byte list" where
  "name_payload cs = concat (map (\<lambda>c. Block_encode (comp_block c)) cs)"

definition name_block :: "NameComponent list \<Rightarrow> Block" where
  "name_block cs =
     Block tlv_Name (name_payload cs) (map comp_block cs)
       (Some (encodeVarNum (unat (tlv_Name :: 32 word)) @ encodeVarNum (length (name_payload cs))
              @ name_payload cs))"

text \<open>A name is valid when its components are and its cached block, when it has a
  wire, decodes to the name's own components: the cache is either absent or current.
  A byte sequence is a Go slice when its length is below \<open>2 ^ 63\<close>.\<close>

definition cache_current :: "Name \<Rightarrow> bool" where
  "cache_current n =
     (if HasWire n then
        (case DecodeName (Some (wire n)) of
           Inr n' \<Rightarrow> Equals n' (Some n) = Inr True
         | Inl f \<Rightarrow> False)
      else True)"

definition valid_name :: "Name \<Rightarrow> bool" where
  "valid_name n = (list_all valid_component (components n) \<and> cache_current n)"

definition go_slice :: "byte list \<Rightarrow> bool" where
  "go_slice bs = (length bs < 2 ^ 63)"

section \<open>Test vectors\<close>

text \<open>The block of \<^verbatim>\<open>TestNameEncode\<close> (the name \<^verbatim>\<open>/go/ndn/seg=170\<close>), the name it
  decodes to, its prefix \<^verbatim>\<open>/go/ndn\<close>, and two blocks \<^verbatim>\<open>TestNameDecode\<close> expects
  to be refused.\<close>

definition comp_go :: NameComponent where
  "comp_go = \<lparr>variant = Generic, tlvType = 0x08, cvalue = [0x67, 0x6f], cwire = None\<rparr>"

definition comp_ndn :: NameComponent where
  "comp_ndn = \<lparr>variant = Generic, tlvType = 0x08, cvalue = [0x6e, 0x64, 0x6e], cwire = None\<rparr>"

definition comp_seg170 :: NameComponent where
  "comp_seg170 = \<lparr>variant = Segment, tlvType = 0x21,
     cvalue = [0, 0, 0, 0, 0, 0, 0, 0xAA], cwire = None\<rparr>"

definition test_block :: Block where
  "test_block = NewBlock 0x07 [0x08, 0x02, 0x67, 0x6f, 0x08, 0x03, 0x6e, 0x64, 0x6e,
     0x21, 0x08, 0, 0, 0, 0, 0, 0, 0, 0xAA]"

definition test_name :: Name where
  "test_name = \<lparr>components = [comp_go, comp_ndn, comp_seg170],
     wire = Block 0x07 [0x08, 0x02, 0x67, 0x6f, 0x08, 0x03, 0x6e, 0x64, 0x6e,
         0x21, 0x08, 0, 0, 0, 0, 0, 0, 0, 0xAA]
       [Block 0x08 [0x67, 0x6f] [] None, Block 0x08 [0x6e, 0x64, 0x6e] [] None,
        Block 0x21 [0, 0, 0, 0, 0, 0, 0, 0xAA] [] None]
       (Some [0x07, 0x13, 0x08, 0x02, 0x67, 0x6f, 0x08, 0x03, 0x6e, 0x64, 0x6e,
         0x21, 0x08, 0, 0, 0, 0, 0, 0, 0, 0xAA])\<rparr>"

definition name_go_ndn :: Name where
  "name_go_ndn = \<lparr>components = [comp_go, comp_ndn], wire = emptyBlock\<rparr>"

definition wrong_type_block :: Block where
  "wrong_type_block = NewBlock 0x08 [0x08, 0x02, 0x67, 0x6f, 0x08, 0x03, 0x6e, 0x64, 0x6e]"

definition empty_component_block :: Block where
  "empty_component_block = NewBlock 0x07 [0x08, 0x02, 0x67, 0x6f, 0x08, 0x00]"

text \<open>A Name block with the component \<^verbatim>\<open>go\<close> followed by a segment component whose
  value has 3 bytes: \<^verbatim>\<open>07 09 08 02 67 6f 21 03 01 02 03\<close>.\<close>

definition short_segment_block :: Block where
  "short_segment_block = NewBlock 0x07 [0x08, 0x02, 0x67, 0x6f, 0x21, 0x03, 0x01, 0x02, 0x03]"

text \<open>The other blocks of \<^verbatim>\<open>TestNameCompare\<close> (\<^verbatim>\<open>n2\<close> to \<^verbatim>\<open>n5\<close>; \<^verbatim>\<open>n1\<close> is
  the block above), and the name \<^verbatim>\<open>/ndn\<close>.\<close>

definition block_n2 :: Block where
  "block_n2 = NewBlock 0x07 [0x08, 0x02, 0x67, 0x6f, 0x08, 0x03, 0x6e, 0x64, 0x6e]"

definition block_n3 :: Block where
  "block_n3 = NewBlock 0x07 [0x08, 0x02, 0x67, 0x6f, 0x08, 0x03, 0x6e, 0x64, 0x6f]"

definition block_n4 :: Block where
  "block_n4 = NewBlock 0x07 [0x08, 0x02, 0x67, 0x6f, 0x09, 0x03, 0x6e, 0x64, 0x6e]"

definition block_n5 :: Block where
  "block_n5 = NewBlock 0x07 [0x08, 0x02, 0x67, 0x6f, 0x09, 0x04, 0x6e, 0x64, 0x6e, 0x6e]"

definition name_ndn :: Name where
  "name_ndn = \<lparr>components = [comp_ndn], wire = emptyBlock\<rparr>"

section \<open>Evaluation rules\<close>

declare Prefix_loop.simps [simp del] match_from.simps [simp del] parseBlocks.simps [simp del]

lemmas tlv_codes = tlv_Name_def tlv_ImplicitSha256DigestComponent_def
  tlv_ParametersSha256DigestComponent_def tlv_GenericNameComponent_def
  tlv_KeywordNameComponent_def tlv_SegmentNameComponent_def tlv_ByteOffsetNameComponent_def
  tlv_VersionNameComponent_def tlv_TimestampNameComponent_def tlv_SequenceNumNameComponent_def

lemma be_bytes_one: "be_bytes 1 n = [of_nat (n mod 256)]"
  unfolding One_nat_def by simp

lemma be_bytes_numeral:
  "be_bytes (numeral k) n = be_bytes (pred_numeral k) (n div 256) @ [of_nat (n mod 256)]"
  unfolding numeral_eq_Suc[of k] by simp

lemmas be_bytes_eval = be_bytes_one be_bytes_numeral

lemma parseBlocks_Nil: "parseBlocks [] = ([], None)"
  by (simp add: parseBlocks.simps)

lemma parseBlocks_Cons:
  "parseBlocks (b # bs) =
     (case decodeBlock (b # bs) of
        Inl e \<Rightarrow> ([], Some e)
      | Inr (blk, rest) \<Rightarrow> (case parseBlocks rest of (blks, e) \<Rightarrow> (blk # blks, e)))"
  by (subst parseBlocks.simps) simp

lemmas parse_eval = parseBlocks_Nil parseBlocks_Cons decodeBlock_def NewBlock_def

lemmas component_eval = DecodeNameComponent_def tlv_codes
  NewImplicitSha256DigestComponent_def NewParametersSha256DigestComponent_def
  NewGenericNameComponent_def NewKeywordNameComponent_def NewSegmentNameComponent_def
  NewByteOffsetNameComponent_def NewVersionNameComponent_def NewTimestampNameComponent_def
  NewSequenceNumNameComponent_def NewBaseNameComponent_def
  Uint64_def PutUint64_def be_nat_def be_bytes_eval DeepCopy_def

lemmas name_eval = DecodeName_def Block_Wire_def Block_encode_def encodeVarNum_def
  Block_Parse_def Block_DeepCopy_def parse_eval Append_def NewName_def Block_Reset_def
  emptyBlock_def Let_def

lemmas test_defs = test_block_def test_name_def name_go_ndn_def comp_go_def comp_ndn_def
  comp_seg170_def wrong_type_block_def empty_component_block_def short_segment_block_def
  name_ndn_def block_n2_def block_n3_def block_n4_def block_n5_def

lemmas compare_eval = Compare_def compare_component_def Type_def Value_def

lemma decode_test_block: "DecodeName (Some test_block) = Inr test_name"
  by (simp add: test_defs name_eval component_eval)

section \<open>Big-endian numbers and the TLV header\<close>

lemma be_nat_Nil: "be_nat [] = 0"
  by (simp add: be_nat_def)

lemma be_nat_snoc: "be_nat (xs @ [b]) = be_nat xs * 256 + unat b"
  by (simp add: be_nat_def)

lemma length_be_bytes: "length (be_bytes k n) = k"
  by (induction k arbitrary: n) auto

lemma unat_byte_of_nat: "m < 256 \<Longrightarrow> unat (of_nat m :: byte) = m"
  by (simp add: unat_of_nat)

lemma unat_byte_less: "unat (b :: byte) < 256"
  using unsigned_less[of b, where 'a = nat] by simp

lemma be_nat_be_bytes: "n < 256 ^ k \<Longrightarrow> be_nat (be_bytes k n) = n"
proof (induction k arbitrary: n)
  case 0
  then show ?case by (simp add: be_nat_Nil)
next
  case (Suc k)
  then have "n div 256 < 256 ^ k"
    by (simp add: less_mult_imp_div_less mult.commute)
  then have "be_nat (be_bytes k (n div 256)) = n div 256" by (rule Suc.IH)
  then show ?case by (simp add: be_nat_snoc unat_byte_of_nat)
qed

lemma be_bytes_be_nat: "be_bytes (length bs) (be_nat bs) = bs"
proof (induction bs rule: rev_induct)
  case Nil
  then show ?case by simp
next
  case (snoc b bs)
  have "(be_nat bs * 256 + unat b) div 256 = be_nat bs"
    using unat_byte_less[of b] by simp
  moreover have "(be_nat bs * 256 + unat b) mod 256 = unat b"
    using unat_byte_less[of b] by simp
  ultimately show ?case using snoc by (simp add: be_nat_snoc)
qed

lemma be_nat_bound: "be_nat bs < 256 ^ length bs"
proof (induction bs rule: rev_induct)
  case Nil
  then show ?case by (simp add: be_nat_Nil)
next
  case (snoc b bs)
  have "be_nat bs * 256 + unat b < (be_nat bs + 1) * 256"
    using unat_byte_less[of b] by simp
  also have "\<dots> \<le> 256 ^ length bs * 256"
    using snoc by (intro mult_le_mono1) simp
  finally show ?case by (simp add: be_nat_snoc)
qed

lemma PutUint64_Uint64:
  assumes "length v = 8"
  shows "Uint64 v = Inr w \<Longrightarrow> PutUint64 w = v"
proof -
  assume "Uint64 v = Inr w"
  with assms have w: "w = of_nat (be_nat v)" by (simp add: Uint64_def)
  have "be_nat v < 256 ^ 8" using be_nat_bound[of v] assms by simp
  then have "be_nat v < 2 ^ 64" by simp
  then have "unat (of_nat (be_nat v) :: 64 word) = be_nat v"
    by (simp add: unat_of_nat)
  with w have "PutUint64 w = be_bytes 8 (be_nat v)" by (simp add: PutUint64_def)
  also have "\<dots> = v" using be_bytes_be_nat[of v] assms by simp
  finally show ?thesis .
qed

lemma Uint64_8: "length v = 8 \<Longrightarrow> \<exists>w. Uint64 v = Inr w \<and> PutUint64 w = v"
proof -
  assume l: "length v = 8"
  then obtain w where w: "Uint64 v = Inr w" by (simp add: Uint64_def)
  with l have "PutUint64 w = v" by (rule PutUint64_Uint64)
  with w show ?thesis by blast
qed

lemma length_PutUint64: "length (PutUint64 w) = 8"
  by (simp add: PutUint64_def length_be_bytes)

lemma encodeVarNum_nonempty: "encodeVarNum n \<noteq> []"
  by (simp add: encodeVarNum_def)

lemma decodeVarNum_encodeVarNum:
  assumes "n < 2 ^ 64"
  shows "decodeVarNum (encodeVarNum n @ r) = Some (n, r)"
proof -
  consider "n < 253" | "253 \<le> n" "n < 2 ^ 16" | "2 ^ 16 \<le> n" "n < 2 ^ 32" | "2 ^ 32 \<le> n"
    by linarith
  then show ?thesis
  proof cases
    case 1
    then show ?thesis by (simp add: encodeVarNum_def unat_byte_of_nat)
  next
    case 2
    then have "be_nat (be_bytes 2 n) = n" by (intro be_nat_be_bytes) simp
    with 2 show ?thesis by (simp add: encodeVarNum_def length_be_bytes)
  next
    case 3
    then have "be_nat (be_bytes 4 n) = n" by (intro be_nat_be_bytes) simp
    with 3 show ?thesis by (simp add: encodeVarNum_def length_be_bytes)
  next
    case 4
    from assms have "be_nat (be_bytes 8 n) = n" by (intro be_nat_be_bytes) simp
    with 4 show ?thesis by (simp add: encodeVarNum_def length_be_bytes)
  qed
qed

lemma decodeBlock_encode:
  assumes "length v < 2 ^ 64"
  shows "decodeBlock (Block_encode (NewBlock t v) @ r) = Inr (NewBlock t v, r)"
proof -
  have t: "unat t < 2 ^ 32" using unsigned_less[of t, where 'a = nat] by simp
  then have t64: "unat t < 2 ^ 64" by simp
  have 1: "decodeVarNum (encodeVarNum (unat t) @ encodeVarNum (length v) @ v @ r) =
      Some (unat t, encodeVarNum (length v) @ v @ r)"
    using t64 by (rule decodeVarNum_encodeVarNum)
  have 2: "decodeVarNum (encodeVarNum (length v) @ v @ r) = Some (length v, v @ r)"
    using assms by (rule decodeVarNum_encodeVarNum)
  from t 1 2 show ?thesis
    by (simp add: decodeBlock_def Block_encode_def NewBlock_def)
qed

lemma Block_encode_nonempty: "Block_encode (NewBlock t v) \<noteq> []"
  by (simp add: Block_encode_def NewBlock_def encodeVarNum_nonempty)

lemma parseBlocks_encoded:
  "list_all (\<lambda>c. length (cvalue c) < 2 ^ 64) cs \<Longrightarrow>
   parseBlocks (concat (map (\<lambda>c. Block_encode (comp_block c)) cs)) = (map comp_block cs, None)"
proof (induction cs)
  case Nil
  then show ?case by (simp add: parseBlocks_Nil)
next
  case (Cons c cs)
  let ?rest = "concat (map (\<lambda>c. Block_encode (comp_block c)) cs)"
  have d: "decodeBlock (Block_encode (comp_block c) @ ?rest) = Inr (comp_block c, ?rest)"
    unfolding comp_block_def using Cons.prems by (intro decodeBlock_encode) simp
  have ne: "Block_encode (comp_block c) @ ?rest \<noteq> []"
    by (simp add: comp_block_def Block_encode_nonempty)
  have "parseBlocks (Block_encode (comp_block c) @ ?rest) =
      (case parseBlocks ?rest of (blks, e) \<Rightarrow> (comp_block c # blks, e))"
    using parseBlocks.simps[of "Block_encode (comp_block c) @ ?rest"] ne d
    by (simp only: if_False sum.case prod.case)
  with Cons show ?case by simp
qed

section \<open>Equality and prefixes\<close>

lemma match_from_eq:
  "0 \<le> i \<Longrightarrow> Size n \<le> Size other \<Longrightarrow>
   match_from n other i =
     Inr (\<forall>j. nat i \<le> j \<and> j < length (components n) \<longrightarrow>
            same_component (components n ! j) (components other ! j))"
proof (induction n other i rule: match_from.induct)
  case (1 n other i)
  show ?case
  proof (cases "i < Size n")
    case False
    with "1.prems" show ?thesis
      by (auto simp: match_from.simps[of n other i] Size_def)
  next
    case True
    with "1.prems" have at: "At n i = Some (components n ! nat i)"
      "At other i = Some (components other ! nat i)"
      by (auto simp: At_def Size_def)
    show ?thesis
    proof (cases "same_component (components n ! nat i) (components other ! nat i)")
      case False
      with True "1.prems" have "\<not> (\<forall>j. nat i \<le> j \<and> j < length (components n) \<longrightarrow>
            same_component (components n ! j) (components other ! j))"
        by (auto simp: Size_def intro!: exI[of _ "nat i"])
      with False True at show ?thesis
        by (simp add: match_from.simps[of n other i] same_component_def)
    next
      case same: True
      from same True at have ih: "match_from n other (i + 1) =
        Inr (\<forall>j. nat (i + 1) \<le> j \<and> j < length (components n) \<longrightarrow>
            same_component (components n ! j) (components other ! j))"
        using "1.IH"[OF True _ refl refl] "1.prems"
        by (simp add: same_component_def)
      have "(\<forall>j. nat i \<le> j \<and> j < length (components n) \<longrightarrow>
            same_component (components n ! j) (components other ! j)) =
            (\<forall>j. nat (i + 1) \<le> j \<and> j < length (components n) \<longrightarrow>
            same_component (components n ! j) (components other ! j))"
      proof -
        have "nat (i + 1) = Suc (nat i)" using "1.prems" by simp
        then show ?thesis using same
          by (metis Suc_leI le_neq_implies_less Suc_le_lessD less_imp_le_nat not_less_eq_eq order_refl le_antisym)
      qed
      with ih same True at show ?thesis
        by (simp add: match_from.simps[of n other i] same_component_def)
    qed
  qed
qed

lemma Equals_eq:
  "Equals n (Some other) = Inr (list_all2 same_component (components n) (components other))"
proof (cases "Size n = Size other")
  case True
  then have len: "length (components n) = length (components other)"
    by (simp add: Size_def)
  from True have "match_from n other 0 =
     Inr (\<forall>j. j < length (components n) \<longrightarrow>
            same_component (components n ! j) (components other ! j))"
    using match_from_eq[of 0 n other] by simp
  with True len show ?thesis
    by (simp add: Equals_def list_all2_conv_all_nth)
next
  case False
  then have "length (components n) \<noteq> length (components other)"
    by (simp add: Size_def)
  with False show ?thesis
    by (auto simp: Equals_def dest: list_all2_lengthD)
qed

lemma PrefixOf_eq:
  "PrefixOf n (Some other) =
     Inr (length (components n) \<le> length (components other) \<and>
          list_all2 same_component (components n)
            (take (length (components n)) (components other)))"
proof (cases "Size n > Size other")
  case True
  then show ?thesis by (simp add: PrefixOf_def Size_def)
next
  case False
  then have le: "length (components n) \<le> length (components other)"
    by (simp add: Size_def)
  from False have "match_from n other 0 =
     Inr (\<forall>j. j < length (components n) \<longrightarrow>
            same_component (components n ! j) (components other ! j))"
    using match_from_eq[of 0 n other] by simp
  with False le show ?thesis
    by (simp add: PrefixOf_def list_all2_conv_all_nth)
qed

lemma same_component_refl: "same_component a a"
  by (simp add: same_component_def)

lemma same_component_DeepCopy: "same_component (DeepCopy a) a"
  by (simp add: same_component_def DeepCopy_def Type_def Value_def)

lemma list_all2_same_refl: "list_all2 same_component xs xs"
  by (simp add: list_all2_refl same_component_refl)

lemma same_component_sym: "same_component a b \<Longrightarrow> same_component b a"
  by (simp add: same_component_def)

lemma same_component_trans: "same_component a b \<Longrightarrow> same_component b c \<Longrightarrow> same_component a c"
  by (simp add: same_component_def)

section \<open>Blocks and the wire cache\<close>

lemma Block_Wire_eq:
  "Block_Wire b = Inr (Block (btype b) (bvalue b) (bsubelements b) (Some (Block_encode b)), Block_encode b)"
  by (simp add: Block_Wire_def)

lemma Block_encode_cached [simp]: "Block_encode (Block t v s (Some w)) = w"
  by (simp add: Block_encode_def)

lemma Block_DeepCopy_id [simp]: "Block_DeepCopy b = b"
  by (simp add: Block_DeepCopy_def)

lemma wire_bytes_eq: "wire_bytes b = Block_encode b"
  by (simp add: wire_bytes_def Block_Wire_def)

lemma DecodeName_wire:
  assumes "DecodeName (Some b) = Inr n"
  shows "wire n = Block (btype b) (bvalue b) (fst (parseBlocks (bvalue b))) (Some (Block_encode b))"
  using assms
  by (auto simp: DecodeName_def Block_Wire_def Block_Parse_def Let_def
      split: sum.splits if_splits prod.splits)

lemma Name_Wire_HasWire: "HasWire (fst (Name_Wire n))"
  by (auto simp: Name_Wire_def HasWire_def Block_Wire_def Block_HasWire_def Let_def
      split: prod.splits)

lemma Name_Wire_fresh: "HasWire n \<Longrightarrow> Name_Wire n = (n, wire n)"
  by (simp add: Name_Wire_def HasWire_def)

lemma DecodeName_bytes:
  assumes "DecodeName (Some b) = Inr n"
  shows "HasWire n \<and> wire_bytes (snd (Name_Wire n)) = wire_bytes b"
proof -
  have w: "wire n = Block (btype b) (bvalue b) (fst (parseBlocks (bvalue b))) (Some (Block_encode b))"
    using assms by (rule DecodeName_wire)
  then have h: "HasWire n" by (simp add: HasWire_def Block_HasWire_def)
  then have "Name_Wire n = (n, wire n)" by (rule Name_Wire_fresh)
  with w h show ?thesis by (simp add: wire_bytes_eq)
qed

lemma not_HasWire_Reset: "\<not> Block_HasWire (Block_Reset w)"
  by (simp add: Block_Reset_def emptyBlock_def Block_HasWire_def)

section \<open>Prefix\<close>

lemma Prefix_loop_eq:
  "0 \<le> i \<Longrightarrow>
   Prefix_loop n sz i acc =
     (if sz \<le> i then Inr acc
      else if sz \<le> Size n
        then Inr (acc @ map DeepCopy (take (nat sz - nat i) (drop (nat i) (components n))))
      else Inl Panic)"
proof (induction n sz i acc rule: Prefix_loop.induct)
  case (1 n sz i acc)
  show ?case
  proof (cases "i < sz")
    case False
    then show ?thesis by (simp add: Prefix_loop.simps[of n sz i acc])
  next
    case True
    show ?thesis
    proof (cases "i \<ge> int (length (components n))")
      case oob: True
      with True "1.prems" show ?thesis
        by (simp add: Prefix_loop.simps[of n sz i acc] Size_def)
    next
      case inb: False
      with True "1.prems" have ih: "Prefix_loop n sz (i + 1) (acc @ [DeepCopy (components n ! nat i)]) =
        (if sz \<le> i + 1 then Inr (acc @ [DeepCopy (components n ! nat i)])
         else if sz \<le> Size n
           then Inr ((acc @ [DeepCopy (components n ! nat i)]) @
                  map DeepCopy (take (nat sz - nat (i + 1)) (drop (nat (i + 1)) (components n))))
         else Inl Panic)"
        using "1.IH" by simp
      have step: "nat (i + 1) = Suc (nat i)" using "1.prems" by simp
      have lt: "nat i < length (components n)" using inb "1.prems" by simp
      have dr: "drop (nat i) (components n) = components n ! nat i # drop (Suc (nat i)) (components n)"
        using lt by (simp add: Cons_nth_drop_Suc)
      have tk: "nat sz - nat i = Suc (nat sz - Suc (nat i))" using True "1.prems" by simp
      have unf: "Prefix_loop n sz i acc =
          Prefix_loop n sz (i + 1) (acc @ [DeepCopy (components n ! nat i)])"
        using True inb "1.prems" by (simp add: Prefix_loop.simps[of n sz i acc])
      have tl: "take (nat sz - nat i) (drop (nat i) (components n)) =
          components n ! nat i # take (nat sz - Suc (nat i)) (drop (Suc (nat i)) (components n))"
        by (subst dr, subst tk) simp
      have le: "sz \<le> Size n" if "sz \<le> i + 1"
        using that inb by (simp add: Size_def)
      show ?thesis
        unfolding unf ih using True le by (simp add: tl step)
    qed
  qed
qed

lemma Prefix_eq:
  "Prefix n sz =
     (if sz \<le> Size n
      then Inr \<lparr>components = map DeepCopy (take (nat sz) (components n)), wire = emptyBlock\<rparr>
      else Inl Panic)"
proof -
  have "Prefix_loop n sz 0 [] =
     (if sz \<le> 0 then Inr []
      else if sz \<le> Size n then Inr (map DeepCopy (take (nat sz) (components n)))
      else Inl Panic)"
    using Prefix_loop_eq[of 0 n sz "[]"] by simp
  then show ?thesis
    by (auto simp: Prefix_def Size_def)
qed

section \<open>Decoding a name\<close>

lemma DecodeName_loop_fail:
  "list_all (\<lambda>e. \<exists>c. DecodeNameComponent (Some e) = Inr c) pre \<Longrightarrow>
   DecodeNameComponent (Some elem) = Inl f \<Longrightarrow>
   DecodeName_loop n (pre @ elem # post) = Inl f"
proof (induction pre arbitrary: n)
  case Nil
  then show ?case by simp
next
  case (Cons e pre)
  then obtain c where c: "DecodeNameComponent (Some e) = Inr c" by auto
  from Cons have "DecodeName_loop n' (pre @ elem # post) = Inl f" for n' by simp
  with c show ?case by (simp add: Append_def)
qed

lemma DecodeName_loop_ok:
  "list_all2 (\<lambda>e c. DecodeNameComponent (Some e) = Inr c) subs cs \<Longrightarrow>
   wire n = emptyBlock \<Longrightarrow>
   DecodeName_loop n subs =
     Inr \<lparr>components = components n @ map DeepCopy cs, wire = emptyBlock\<rparr>"
proof (induction subs cs arbitrary: n rule: list_all2_induct)
  case Nil
  then show ?case by simp
next
  case (Cons e subs c cs)
  let ?n' = "n\<lparr>components := components n @ [DeepCopy c], wire := Block_Reset (wire n)\<rparr>"
  have "wire ?n' = emptyBlock" by (simp add: Block_Reset_def)
  then have "DecodeName_loop ?n' subs =
     Inr \<lparr>components = components ?n' @ map DeepCopy cs, wire = emptyBlock\<rparr>"
    by (rule Cons.IH)
  with Cons.hyps(1) show ?case by (simp add: Append_def)
qed

lemma DecodeName_unfold:
  assumes "DecodeName (Some b) = Inr n"
  shows "btype b = tlv_Name \<and>
     (\<exists>m. DecodeName_loop NewName (fst (parseBlocks (bvalue b))) = Inr m
        \<and> n = m\<lparr>wire := Block (btype b) (bvalue b) (fst (parseBlocks (bvalue b)))
                           (Some (Block_encode b))\<rparr>)"
  using assms
  by (auto simp: DecodeName_def Block_Wire_def Block_Parse_def Let_def
      split: sum.splits if_splits prod.splits)

lemma DecodeName_idem:
  assumes "DecodeName (Some b) = Inr n"
  shows "DecodeName (Some (wire n)) = Inr n"
proof -
  from DecodeName_unfold[OF assms] obtain m where
    t: "btype b = tlv_Name" and
    m: "DecodeName_loop NewName (fst (parseBlocks (bvalue b))) = Inr m" and
    n: "n = m\<lparr>wire := Block (btype b) (bvalue b) (fst (parseBlocks (bvalue b)))
                           (Some (Block_encode b))\<rparr>"
    by blast
  obtain subs e where p: "parseBlocks (bvalue b) = (subs, e)" by force
  from t m n show ?thesis
    by (simp add: p DecodeName_def Block_Wire_def Block_Parse_def Let_def)
qed

section \<open>Type codes\<close>

lemma unat_ucast_16_32: "unat (ucast (t :: 16 word) :: 32 word) = unat t"
proof -
  have "unat t < 2 ^ 16" using unsigned_less[of t, where 'a = nat] by simp
  then have "unat t < 2 ^ 32" by simp
  then show ?thesis by (simp add: unsigned_ucast_eq take_bit_nat_eq_self)
qed

lemma ucast_16_32_eq_iff:
  "(ucast (t :: 16 word) :: 32 word) = ucast (u :: 16 word) \<longleftrightarrow> t = u"
  by (simp add: word_unat_eq_iff unat_ucast_16_32)

lemma ucast_16_32_code:
  "(ucast (t :: 16 word) :: 32 word) = tlv_ImplicitSha256DigestComponent \<longleftrightarrow> t = tlv_ImplicitSha256DigestComponent"
  "(ucast (t :: 16 word) :: 32 word) = tlv_ParametersSha256DigestComponent \<longleftrightarrow> t = tlv_ParametersSha256DigestComponent"
  "(ucast (t :: 16 word) :: 32 word) = tlv_GenericNameComponent \<longleftrightarrow> t = tlv_GenericNameComponent"
  "(ucast (t :: 16 word) :: 32 word) = tlv_KeywordNameComponent \<longleftrightarrow> t = tlv_KeywordNameComponent"
  "(ucast (t :: 16 word) :: 32 word) = tlv_SegmentNameComponent \<longleftrightarrow> t = tlv_SegmentNameComponent"
  "(ucast (t :: 16 word) :: 32 word) = tlv_ByteOffsetNameComponent \<longleftrightarrow> t = tlv_ByteOffsetNameComponent"
  "(ucast (t :: 16 word) :: 32 word) = tlv_VersionNameComponent \<longleftrightarrow> t = tlv_VersionNameComponent"
  "(ucast (t :: 16 word) :: 32 word) = tlv_TimestampNameComponent \<longleftrightarrow> t = tlv_TimestampNameComponent"
  "(ucast (t :: 16 word) :: 32 word) = tlv_SequenceNumNameComponent \<longleftrightarrow> t = tlv_SequenceNumNameComponent"
  by (simp_all add: word_unat_eq_iff unat_ucast_16_32 tlv_codes)

lemma ucast_16_32_le: "\<not> 0xFFFF < (ucast (t :: 16 word) :: 32 word)"
proof -
  have "unat t < 2 ^ 16" using unsigned_less[of t, where 'a = nat] by simp
  then show ?thesis by (simp add: word_less_nat_alt unat_ucast_16_32)
qed

lemma ucast_16_32_16: "(ucast (ucast (t :: 16 word) :: 32 word) :: 16 word) = t"
  by (simp add: ucast_up_ucast_id is_up)

lemma ucast_32_16_32:
  assumes "\<not> 0xFFFF < (bt :: 32 word)"
  shows "(ucast (ucast bt :: 16 word) :: 32 word) = bt"
proof -
  from assms have "unat bt < 2 ^ 16" by (simp add: word_less_nat_alt)
  then have "unat (ucast bt :: 16 word) = unat bt"
    by (simp add: unsigned_ucast_eq take_bit_nat_eq_self)
  then show ?thesis by (simp add: word_unat_eq_iff unat_ucast_16_32)
qed

lemma code_classes:
  "digest_code (tlv_ImplicitSha256DigestComponent)" "digest_code (tlv_ParametersSha256DigestComponent)"
  "\<not> digest_code tlv_GenericNameComponent" "\<not> fixed_width_code tlv_GenericNameComponent"
  "\<not> digest_code tlv_KeywordNameComponent" "\<not> fixed_width_code tlv_KeywordNameComponent"
  "\<not> digest_code tlv_SegmentNameComponent" "fixed_width_code tlv_SegmentNameComponent"
  "\<not> digest_code tlv_ByteOffsetNameComponent" "fixed_width_code tlv_ByteOffsetNameComponent"
  "\<not> digest_code tlv_VersionNameComponent" "fixed_width_code tlv_VersionNameComponent"
  "\<not> digest_code tlv_TimestampNameComponent" "fixed_width_code tlv_TimestampNameComponent"
  "\<not> digest_code tlv_SequenceNumNameComponent" "fixed_width_code tlv_SequenceNumNameComponent"
  by (simp_all add: digest_code_def fixed_width_code_def tlv_codes)

section \<open>Encoding and decoding valid components\<close>

lemma Component_Wire_valid:
  "valid_component c \<Longrightarrow>
   Component_Wire c = (c\<lparr>cwire := Some (comp_block c)\<rparr>, comp_block c)"
  by (auto simp: valid_component_def Component_Wire_def comp_block_def Let_def
      split: option.splits)

lemma Wire_loop_valid:
  "list_all valid_component cs \<Longrightarrow> bwire w = None \<Longrightarrow>
   Wire_loop cs w =
     (map (\<lambda>c. c\<lparr>cwire := Some (comp_block c)\<rparr>) cs,
      Block (btype w) (bvalue w @ concat (map (\<lambda>c. Block_encode (comp_block c)) cs))
        (bsubelements w @ map comp_block cs) None)"
proof (induction cs arbitrary: w)
  case Nil
  then show ?case by (cases w) simp
next
  case (Cons c cs)
  then show ?case
    by (simp add: Component_Wire_valid Block_Append_def)
qed

lemma decode_valid_component:
  assumes "valid_component c"
  shows "\<exists>d. DecodeNameComponent (Some (comp_block c)) = Inr d \<and> same_component d c"
proof -
  let ?t = "tlvType c" and ?v = "cvalue c"
  have same: "same_component \<lparr>variant = k, tlvType = ?t, cvalue = ?v, cwire = None\<rparr> c" for k
    by (simp add: same_component_def Type_def Value_def)
  consider (digest) "digest_code ?t" | (fixed) "\<not> digest_code ?t" "fixed_width_code ?t"
    | (other) "\<not> digest_code ?t" "\<not> fixed_width_code ?t" by blast
  then show ?thesis
  proof cases
    case digest
    with assms have l: "length ?v = 32" by (simp add: valid_component_def)
    from digest consider "?t = tlv_ImplicitSha256DigestComponent"
      | "?t \<noteq> tlv_ImplicitSha256DigestComponent" "?t = tlv_ParametersSha256DigestComponent"
      unfolding digest_code_def by blast
    then show ?thesis
    proof cases
      case 1
      with l same[of ImplicitSha256Digest] show ?thesis
        by (simp add: DecodeNameComponent_def comp_block_def NewBlock_def ucast_16_32_code
            NewImplicitSha256DigestComponent_def)
    next
      case 2
      with l same[of ParametersSha256Digest] show ?thesis
        by (simp add: DecodeNameComponent_def comp_block_def NewBlock_def ucast_16_32_code
            NewParametersSha256DigestComponent_def)
    qed
  next
    case fixed
    with assms have l: "length ?v = 8" by (simp add: valid_component_def)
    then obtain w where w: "Uint64 ?v = Inr w" "PutUint64 w = ?v"
      using Uint64_8 by blast
    from fixed(1) have nd: "?t \<noteq> tlv_ImplicitSha256DigestComponent"
      "?t \<noteq> tlv_ParametersSha256DigestComponent"
      by (auto simp: digest_code_def)
    from fixed(2) have ng: "?t \<noteq> tlv_GenericNameComponent" "?t \<noteq> tlv_KeywordNameComponent"
      by (auto simp: fixed_width_code_def tlv_codes)
    from fixed(2) consider "?t = tlv_SegmentNameComponent"
      | "?t = tlv_ByteOffsetNameComponent" | "?t = tlv_VersionNameComponent"
      | "?t = tlv_TimestampNameComponent" | "?t = tlv_SequenceNumNameComponent"
      unfolding fixed_width_code_def by blast
    then show ?thesis
    proof cases
      case 1
      have "DecodeNameComponent (Some (comp_block c)) = NewSegmentNameComponent w"
        using l w nd ng 1
        by (simp add: DecodeNameComponent_def comp_block_def NewBlock_def ucast_16_32_code)
      with w 1 same[of Segment] show ?thesis by (simp add: NewSegmentNameComponent_def)
    next
      case 2
      have "DecodeNameComponent (Some (comp_block c)) = NewByteOffsetNameComponent w"
        using l w nd ng 2
        by (simp add: DecodeNameComponent_def comp_block_def NewBlock_def ucast_16_32_code
            tlv_codes)
      with w 2 same[of ByteOffset] show ?thesis by (simp add: NewByteOffsetNameComponent_def)
    next
      case 3
      have "DecodeNameComponent (Some (comp_block c)) = NewVersionNameComponent w"
        using l w nd ng 3
        by (simp add: DecodeNameComponent_def comp_block_def NewBlock_def ucast_16_32_code
            tlv_codes)
      with w 3 same[of Version] show ?thesis by (simp add: NewVersionNameComponent_def)
    next
      case 4
      have "DecodeNameComponent (Some (comp_block c)) = NewTimestampNameComponent w"
        using l w nd ng 4
        by (simp add: DecodeNameComponent_def comp_block_def NewBlock_def ucast_16_32_code
            tlv_codes)
      with w 4 same[of Timestamp] show ?thesis by (simp add: NewTimestampNameComponent_def)
    next
      case 5
      have "DecodeNameComponent (Some (comp_block c)) = NewSequenceNumNameComponent w"
        using l w nd ng 5
        by (simp add: DecodeNameComponent_def comp_block_def NewBlock_def ucast_16_32_code
            tlv_codes)
      with w 5 same[of SequenceNum] show ?thesis by (simp add: NewSequenceNumNameComponent_def)
    qed
  next
    case other
    with assms have l: "1 \<le> length ?v" by (simp add: valid_component_def)
    then have l0: "length ?v \<noteq> 0" "?v \<noteq> []" by auto
    from other(1) have nd: "?t \<noteq> tlv_ImplicitSha256DigestComponent"
      "?t \<noteq> tlv_ParametersSha256DigestComponent"
      by (auto simp: digest_code_def)
    from other(2) have nf: "?t \<noteq> tlv_SegmentNameComponent" "?t \<noteq> tlv_ByteOffsetNameComponent"
      "?t \<noteq> tlv_VersionNameComponent" "?t \<noteq> tlv_TimestampNameComponent"
      "?t \<noteq> tlv_SequenceNumNameComponent"
      by (auto simp: fixed_width_code_def)
    consider "?t = tlv_GenericNameComponent"
      | "?t \<noteq> tlv_GenericNameComponent" "?t = tlv_KeywordNameComponent"
      | "?t \<noteq> tlv_GenericNameComponent" "?t \<noteq> tlv_KeywordNameComponent" by blast
    then show ?thesis
    proof cases
      case 1
      with l0 nd same[of Generic] show ?thesis
        by (simp add: DecodeNameComponent_def comp_block_def NewBlock_def ucast_16_32_code
            NewGenericNameComponent_def)
    next
      case 2
      with l0 nd same[of Keyword] show ?thesis
        by (simp add: DecodeNameComponent_def comp_block_def NewBlock_def ucast_16_32_code
            NewKeywordNameComponent_def)
    next
      case 3
      with l0 nd nf same[of Base] show ?thesis
        by (simp add: DecodeNameComponent_def comp_block_def NewBlock_def ucast_16_32_code
            NewBaseNameComponent_def ucast_16_32_le ucast_16_32_16)
    qed
  qed
qed

lemma decode_all_valid:
  "list_all valid_component cs \<Longrightarrow>
   \<exists>ds. list_all2 (\<lambda>e d. DecodeNameComponent (Some e) = Inr d) (map comp_block cs) ds
        \<and> list_all2 same_component ds cs"
proof (induction cs)
  case Nil
  then show ?case by simp
next
  case (Cons c cs)
  then obtain ds where ds: "list_all2 (\<lambda>e d. DecodeNameComponent (Some e) = Inr d) (map comp_block cs) ds"
    "list_all2 same_component ds cs" by auto
  from Cons.prems obtain d where d: "DecodeNameComponent (Some (comp_block c)) = Inr d"
    "same_component d c"
    using decode_valid_component[of c] by auto
  from ds d have "list_all2 (\<lambda>e d. DecodeNameComponent (Some e) = Inr d)
      (map comp_block (c # cs)) (d # ds) \<and> list_all2 same_component (d # ds) (c # cs)"
    by simp
  then show ?case by blast
qed

lemma Name_Wire_stale:
  assumes "\<not> HasWire n" "list_all valid_component (components n)"
  shows "Name_Wire n =
     (\<lparr>components = map (\<lambda>c. c\<lparr>cwire := Some (comp_block c)\<rparr>) (components n),
       wire = name_block (components n)\<rparr>, name_block (components n))"
proof -
  let ?w0 = "Block_SetType (Block_Reset (wire n)) tlv_Name"
  have w0: "?w0 = Block tlv_Name [] [] None"
    by (simp add: Block_SetType_def Block_Reset_def emptyBlock_def)
  have "Wire_loop (components n) ?w0 =
     (map (\<lambda>c. c\<lparr>cwire := Some (comp_block c)\<rparr>) (components n),
      Block tlv_Name (name_payload (components n)) (map comp_block (components n)) None)"
    using Wire_loop_valid[OF assms(2), of ?w0] by (simp add: w0 name_payload_def)
  with assms(1) show ?thesis
    by (simp add: Name_Wire_def HasWire_def Block_Wire_def Block_encode_def name_block_def Let_def)
qed

lemma value_le_payload:
  "c \<in> set cs \<Longrightarrow> length (cvalue c) \<le> length (name_payload cs)"
proof (induction cs)
  case Nil
  then show ?case by simp
next
  case (Cons a cs)
  have "length (cvalue a) \<le> length (Block_encode (comp_block a))"
    by (simp add: Block_encode_def comp_block_def NewBlock_def)
  with Cons show ?case by (auto simp: name_payload_def)
qed

lemma DecodeName_name_block:
  assumes "list_all valid_component cs" "go_slice (Block_encode (name_block cs))"
  shows "\<exists>n'. DecodeName (Some (name_block cs)) = Inr n'
           \<and> list_all2 same_component (components n') cs"
proof -
  from assms(2) have "length (name_payload cs) < 2 ^ 63"
    by (simp add: go_slice_def name_block_def)
  then have "length (cvalue c) < 2 ^ 64" if "c \<in> set cs" for c
    using value_le_payload[OF that] by simp
  then have "list_all (\<lambda>c. length (cvalue c) < 2 ^ 64) cs"
    by (simp add: list_all_iff)
  then have p: "parseBlocks (name_payload cs) = (map comp_block cs, None)"
    unfolding name_payload_def by (rule parseBlocks_encoded)
  from assms(1) obtain ds where
    ds: "list_all2 (\<lambda>e d. DecodeNameComponent (Some e) = Inr d) (map comp_block cs) ds"
    and same: "list_all2 same_component ds cs"
    using decode_all_valid by blast
  have "DecodeName_loop NewName (map comp_block cs) =
      Inr \<lparr>components = components NewName @ map DeepCopy ds, wire = emptyBlock\<rparr>"
    using ds by (rule DecodeName_loop_ok) (simp add: NewName_def)
  then have d: "DecodeName (Some (name_block cs)) =
      Inr \<lparr>components = map DeepCopy ds, wire = name_block cs\<rparr>"
    using p
    by (simp add: DecodeName_def name_block_def Block_Wire_def Block_Parse_def NewName_def Let_def)
  have "same_component (DeepCopy x) y" if "same_component x y" for x y
    using same_component_DeepCopy[of x] that by (rule same_component_trans)
  with same have "list_all2 same_component (map DeepCopy ds) cs"
    by (auto simp: list_all2_map1 elim: list_all2_mono)
  with d show ?thesis by simp
qed

lemma decoded_component_valid:
  assumes "DecodeNameComponent (Some e) = Inr d"
  shows "valid_component d \<and> cwire d = None"
proof -
  let ?bt = "btype e" and ?v = "bvalue e"
  from assms have ne: "length ?v \<noteq> 0"
    by (auto simp: DecodeNameComponent_def split: if_splits)
  from ne have ge: "Suc 0 \<le> length ?v" by (cases ?v) auto
  have num: "valid_component \<lparr>variant = k, tlvType = t, cvalue = PutUint64 w, cwire = None\<rparr>"
    if "\<not> digest_code t" "fixed_width_code t" for k t w
    using that by (simp add: valid_component_def length_PutUint64)
  consider (special) "?bt = tlv_ImplicitSha256DigestComponent \<or> ?bt = tlv_ParametersSha256DigestComponent
      \<or> ?bt = tlv_GenericNameComponent \<or> ?bt = tlv_KeywordNameComponent
      \<or> ?bt = tlv_SegmentNameComponent \<or> ?bt = tlv_ByteOffsetNameComponent
      \<or> ?bt = tlv_VersionNameComponent \<or> ?bt = tlv_TimestampNameComponent
      \<or> ?bt = tlv_SequenceNumNameComponent"
    | (base) "?bt \<noteq> tlv_ImplicitSha256DigestComponent" "?bt \<noteq> tlv_ParametersSha256DigestComponent"
      "?bt \<noteq> tlv_GenericNameComponent" "?bt \<noteq> tlv_KeywordNameComponent"
      "?bt \<noteq> tlv_SegmentNameComponent" "?bt \<noteq> tlv_ByteOffsetNameComponent"
      "?bt \<noteq> tlv_VersionNameComponent" "?bt \<noteq> tlv_TimestampNameComponent"
      "?bt \<noteq> tlv_SequenceNumNameComponent"
    by blast
  then show ?thesis
  proof cases
    case special
    with assms ne ge show ?thesis
      by (auto simp: DecodeNameComponent_def NewImplicitSha256DigestComponent_def
          NewParametersSha256DigestComponent_def NewGenericNameComponent_def
          NewKeywordNameComponent_def NewSegmentNameComponent_def NewByteOffsetNameComponent_def
          NewVersionNameComponent_def NewTimestampNameComponent_def
          NewSequenceNumNameComponent_def valid_component_def code_classes length_PutUint64
          split: if_splits sum.splits)
  next
    case base
    with assms ne have le: "\<not> 0xFFFF < ?bt"
      and d: "d = \<lparr>variant = Base, tlvType = ucast ?bt, cvalue = ?v, cwire = None\<rparr>"
      by (auto simp: DecodeNameComponent_def NewBaseNameComponent_def split: if_splits)
    let ?t = "ucast ?bt :: 16 word"
    have up: "(ucast ?t :: 32 word) = ?bt" using le by (rule ucast_32_16_32)
    have "\<not> digest_code ?t" "\<not> fixed_width_code ?t"
      using base ucast_16_32_code[of "?t"]
      by (simp_all add: up digest_code_def fixed_width_code_def)
    with d ge show ?thesis by (simp add: valid_component_def)
  qed
qed

text \<open>Validity is needed: \<^verbatim>\<open>NewBaseNameComponent\<close> accepts the segment code with a
  3-byte value, and the name holding that component encodes to a block whose decoding
  panics (the unchecked length of C4).\<close>

lemma round_trip_needs_valid:
  "NewBaseNameComponent tlv_SegmentNameComponent [1, 2, 3] =
     Inr \<lparr>variant = Base, tlvType = tlv_SegmentNameComponent, cvalue = [1, 2, 3], cwire = None\<rparr>
   \<and> DecodeName (Some (snd (Name_Wire
         \<lparr>components = [\<lparr>variant = Base, tlvType = tlv_SegmentNameComponent,
                          cvalue = [1, 2, 3], cwire = None\<rparr>],
          wire = emptyBlock\<rparr>))) = Inl Panic"
  by (simp add: NewBaseNameComponent_def Name_Wire_def Component_Wire_def Block_Append_def
      Block_SetType_def Block_HasWire_def name_eval component_eval)

section \<open>Validity is kept by every operation\<close>

text \<open>The new name is valid, every decoded name is, and the operations of a name keep
  it so (for components that are valid): the hypothesis of the round trip holds of
  every name built through them.\<close>

lemma valid_component_DeepCopy: "valid_component c \<Longrightarrow> valid_component (DeepCopy c)"
  by (auto simp: valid_component_def DeepCopy_def split: if_splits)

lemma stale_cache_current: "\<not> HasWire n \<Longrightarrow> cache_current n"
  by (simp add: cache_current_def)

lemma DecodeName_loop_valid:
  "DecodeName_loop n subs = Inr n' \<Longrightarrow> list_all valid_component (components n) \<Longrightarrow>
   list_all valid_component (components n')"
proof (induction subs arbitrary: n)
  case Nil
  then show ?case by simp
next
  case (Cons e subs)
  from Cons.prems(1) obtain d where d: "DecodeNameComponent (Some e) = Inr d"
    by (auto split: sum.splits)
  then have vd: "valid_component (DeepCopy d)"
    using decoded_component_valid valid_component_DeepCopy by blast
  let ?n1 = "n\<lparr>components := components n @ [DeepCopy d], wire := Block_Reset (wire n)\<rparr>"
  from Cons.prems(1) d have "DecodeName_loop ?n1 subs = Inr n'"
    by (simp add: Append_def)
  moreover have "list_all valid_component (components ?n1)"
    using Cons.prems(2) vd by simp
  ultimately show ?case by (rule Cons.IH)
qed

lemma valid_name_NewName: "valid_name NewName"
  by (simp add: valid_name_def NewName_def cache_current_def HasWire_def emptyBlock_def
      Block_HasWire_def)

lemma valid_name_DecodeName:
  assumes "DecodeName (Some b) = Inr n"
  shows "valid_name n"
proof -
  from DecodeName_unfold[OF assms] obtain m where
    m: "DecodeName_loop NewName (fst (parseBlocks (bvalue b))) = Inr m" and
    n: "components n = components m"
    by auto
  have "list_all valid_component (components m)"
    using m by (rule DecodeName_loop_valid) (simp add: NewName_def)
  moreover have "cache_current n"
    using DecodeName_idem[OF assms]
    by (simp add: cache_current_def Equals_eq list_all2_same_refl)
  ultimately show ?thesis by (simp add: valid_name_def n)
qed

lemma valid_name_Append:
  "valid_name n \<Longrightarrow> valid_component c \<Longrightarrow> Append n (Some c) = Inr n' \<Longrightarrow> valid_name n'"
  by (auto simp: valid_name_def Append_def valid_component_DeepCopy HasWire_def
      not_HasWire_Reset intro!: stale_cache_current)

lemma valid_name_Set:
  "valid_name n \<Longrightarrow> valid_component c \<Longrightarrow> Set n i (Some c) = Inr n' \<Longrightarrow> valid_name n'"
  by (auto simp: valid_name_def Set_def valid_component_DeepCopy HasWire_def
      not_HasWire_Reset list_all_length nth_list_update
      intro!: stale_cache_current split: if_splits)

lemma valid_name_Erase: "valid_name n \<Longrightarrow> valid_name (Erase n i)"
proof (cases "i < 0 \<or> i \<ge> int (length (components n))")
  case True
  then show "valid_name n \<Longrightarrow> valid_name (Erase n i)" by (simp add: Erase_def)
next
  case False
  assume v: "valid_name n"
  then have "list_all valid_component (components n)" by (simp add: valid_name_def)
  then have "list_all valid_component
      (take (nat i) (components n) @ drop (nat i + 1) (components n))"
    by (auto simp: list_all_iff dest: in_set_takeD in_set_dropD)
  with False show "valid_name (Erase n i)"
    by (auto simp: valid_name_def Erase_def HasWire_def not_HasWire_Reset
        intro!: stale_cache_current)
qed

lemma valid_name_Clear: "valid_name n \<Longrightarrow> valid_name (Clear n)"
  by (auto simp: valid_name_def Clear_def HasWire_def not_HasWire_Reset
      intro!: stale_cache_current)

lemma valid_name_DeepCopy: "valid_name n \<Longrightarrow> valid_name (Name_DeepCopy n)"
  by (auto simp: valid_name_def Name_DeepCopy_def HasWire_def emptyBlock_def Block_HasWire_def
      list_all_iff valid_component_DeepCopy intro!: stale_cache_current)

lemma valid_name_Prefix:
  assumes "valid_name n" "Prefix n sz = Inr n'"
  shows "valid_name n'"
proof -
  from assms(2) have n': "n' = \<lparr>components = map DeepCopy (take (nat sz) (components n)),
      wire = emptyBlock\<rparr>"
    by (simp add: Prefix_eq split: if_splits)
  from assms(1) have "list_all valid_component (components n)" by (simp add: valid_name_def)
  then have "list_all valid_component (map DeepCopy (take (nat sz) (components n)))"
    by (auto simp: list_all_iff valid_component_DeepCopy dest: in_set_takeD)
  with n' show ?thesis
    by (auto simp: valid_name_def HasWire_def emptyBlock_def Block_HasWire_def
        intro!: stale_cache_current)
qed

lemma valid_name_Wire:
  assumes "valid_name n" "go_slice (wire_bytes (snd (Name_Wire n)))"
  shows "valid_name (fst (Name_Wire n))"
proof (cases "HasWire n")
  case True
  with assms(1) show ?thesis by (simp add: Name_Wire_fresh)
next
  case False
  let ?cs = "components n"
  let ?cs' = "map (\<lambda>c. c\<lparr>cwire := Some (comp_block c)\<rparr>) ?cs"
  from assms(1) have v: "list_all valid_component ?cs" by (simp add: valid_name_def)
  with False have w: "Name_Wire n = (\<lparr>components = ?cs', wire = name_block ?cs\<rparr>, name_block ?cs)"
    by (rule Name_Wire_stale)
  with assms(2) have "go_slice (Block_encode (name_block ?cs))"
    by (simp add: wire_bytes_eq)
  with v obtain n' where n': "DecodeName (Some (name_block ?cs)) = Inr n'"
    "list_all2 same_component (components n') ?cs"
    using DecodeName_name_block by blast
  have v': "list_all valid_component ?cs'"
    using v by (auto simp: list_all_iff valid_component_def comp_block_def NewBlock_def
        Block_HasWire_def)
  have "list_all2 same_component (components n') ?cs'"
    using n'(2) by (auto simp: list_all2_map2 same_component_def Type_def Value_def
        elim: list_all2_mono)
  with n'(1) have "cache_current \<lparr>components = ?cs', wire = name_block ?cs\<rparr>"
    by (simp add: cache_current_def Equals_eq)
  with v' w show ?thesis by (simp add: valid_name_def)
qed

lemma valid_test_components:
  "valid_component comp_go" "valid_component comp_ndn" "valid_component comp_seg170"
  by (simp_all add: valid_component_def digest_code_def fixed_width_code_def tlv_codes test_defs)

section \<open>The canonical order\<close>

lemma compare_bytes_range: "compare_bytes xs ys \<in> {-1, 0, 1}"
  by (induction xs ys rule: compare_bytes.induct) auto

lemma compare_bytes_antisym: "compare_bytes xs ys = - compare_bytes ys xs"
  by (induction xs ys rule: compare_bytes.induct) auto

lemma compare_bytes_eq: "compare_bytes xs ys = 0 \<longleftrightarrow> xs = ys"
  by (induction xs ys rule: compare_bytes.induct) auto

lemma compare_bytes_trans:
  "compare_bytes xs ys = -1 \<Longrightarrow> compare_bytes ys zs = -1 \<Longrightarrow> compare_bytes xs zs = -1"
proof (induction xs ys arbitrary: zs rule: compare_bytes.induct)
  case 1
  then show ?case by simp
next
  case (2 y ys)
  then show ?case by (cases zs) (auto split: if_splits)
next
  case (3 x xs)
  then show ?case by simp
next
  case (4 x xs y ys)
  then show ?case
    by (cases zs) (auto split: if_splits)
qed

lemma compare_component_range: "compare_component a b \<in> {-1, 0, 1}"
  using compare_bytes_range[of "Value a" "Value b"]
  by (auto simp: compare_component_def)

lemma compare_component_antisym: "compare_component a b = - compare_component b a"
  using compare_bytes_antisym[of "Value a" "Value b"]
  by (auto simp: compare_component_def)

lemma compare_component_eq: "compare_component a b = 0 \<longleftrightarrow> same_component a b"
  using compare_bytes_eq[of "Value a" "Value b"]
  by (auto simp: compare_component_def same_component_def)

lemma compare_component_trans:
  assumes "compare_component a b = -1" "compare_component b c = -1"
  shows "compare_component a c = -1"
proof -
  have r: "compare_bytes (Value a) (Value b) \<in> {-1, 0, 1}"
    "compare_bytes (Value b) (Value c) \<in> {-1, 0, 1}"
    "compare_bytes (Value a) (Value c) \<in> {-1, 0, 1}"
    by (rule compare_bytes_range)+
  have t: "compare_bytes (Value a) (Value b) = -1 \<Longrightarrow> compare_bytes (Value b) (Value c) = -1
      \<Longrightarrow> compare_bytes (Value a) (Value c) = -1"
    by (rule compare_bytes_trans)
  have e: "compare_bytes (Value a) (Value b) = 0 \<longleftrightarrow> Value a = Value b"
    "compare_bytes (Value b) (Value c) = 0 \<longleftrightarrow> Value b = Value c"
    "compare_bytes (Value a) (Value c) = 0 \<longleftrightarrow> Value a = Value c"
    by (rule compare_bytes_eq)+
  show ?thesis
    using assms r t e
    by (auto simp: compare_component_def split: if_splits)
qed

lemma compare_component_same_left:
  "same_component a b \<Longrightarrow> compare_component a c = compare_component b c"
  by (simp add: compare_component_def same_component_def)

lemma compare_component_same_right:
  "same_component b c \<Longrightarrow> compare_component a b = compare_component a c"
  by (simp add: compare_component_def same_component_def)

lemma compare_components_range: "compare_components xs ys \<in> {-1, 0, 1}"
  using compare_component_range
  by (induction xs ys rule: compare_components.induct) auto

lemma compare_components_antisym: "compare_components xs ys = - compare_components ys xs"
proof (induction xs ys rule: compare_components.induct)
  case (4 a as b bs)
  then show ?case using compare_component_antisym[of a b] by auto
qed auto

lemma compare_components_eq:
  "compare_components xs ys = 0 \<longleftrightarrow> list_all2 same_component xs ys"
  by (induction xs ys rule: compare_components.induct) (auto simp: compare_component_eq)

lemma compare_components_prefix:
  "list_all2 same_component xs (take (length xs) ys) \<Longrightarrow> length xs < length ys \<Longrightarrow>
   compare_components xs ys = -1"
  by (induction xs ys rule: compare_components.induct) (auto simp: compare_component_eq)

lemma compare_components_trans:
  "compare_components xs ys = -1 \<Longrightarrow> compare_components ys zs = -1 \<Longrightarrow>
   compare_components xs zs = -1"
proof (induction xs ys arbitrary: zs rule: compare_components.induct)
  case 1
  then show ?case by simp
next
  case (2 b bs)
  then show ?case by (cases zs) (auto split: if_splits)
next
  case (3 a as)
  then show ?case by simp
next
  case (4 a as b bs)
  show ?case
  proof (cases zs)
    case Nil
    with 4 show ?thesis by simp
  next
    case (Cons c cs)
    have rab: "compare_component a b \<in> {-1, 0, 1}" and rbc: "compare_component b c \<in> {-1, 0, 1}"
      by (rule compare_component_range)+
    show ?thesis
    proof (cases "compare_component a b = 0")
      case ab0: True
      then have sab: "same_component a b" by (simp add: compare_component_eq)
      show ?thesis
      proof (cases "compare_component b c = 0")
        case True
        with ab0 4 Cons sab show ?thesis
          by (simp add: compare_component_same_left[OF sab])
      next
        case False
        with ab0 4 Cons sab show ?thesis
          by (simp add: compare_component_same_left[OF sab])
      qed
    next
      case abn: False
      with 4 have ab: "compare_component a b = -1" by simp
      show ?thesis
      proof (cases "compare_component b c = 0")
        case True
        then have "same_component b c" by (simp add: compare_component_eq)
        then have "compare_component a c = compare_component a b"
          by (simp add: compare_component_same_right)
        with ab Cons show ?thesis by simp
      next
        case False
        with 4 Cons have "compare_component b c = -1" by simp
        with ab have "compare_component a c = -1" by (rule compare_component_trans)
        with Cons show ?thesis by simp
      qed
    qed
  qed
qed

text \<open>The modelled order gives the results \<^verbatim>\<open>TestNameCompare\<close> expects.\<close>

lemma TestNameCompare:
  "(case (DecodeName (Some test_block), DecodeName (Some block_n2), DecodeName (Some block_n3),
          DecodeName (Some block_n4), DecodeName (Some block_n5)) of
      (Inr n1, Inr n2, Inr n3, Inr n4, Inr n5) \<Rightarrow>
        Compare n1 n1 = 0
        \<and> Compare n2 n1 = -1 \<and> Compare n1 n2 = 1
        \<and> Compare n2 n4 = -1 \<and> Compare n4 n2 = 1
        \<and> Compare n4 n5 = -1 \<and> Compare n5 n4 = 1
        \<and> Compare n2 n3 = -1 \<and> Compare n3 n2 = 1
    | _ \<Rightarrow> False)"
  by (simp add: test_defs block_n2_def block_n3_def block_n4_def block_n5_def
      name_eval component_eval compare_eval)

section \<open>The outcomes of decoding a name\<close>

text \<open>
  What \<^verbatim>\<open>DecodeName\<close> does on a block, outcome by outcome. A block whose type code
  is not the Name code gives the Unrecognized error. For a block of the Name code, the
  outcome \<open>f\<close> of the first subelement that does not decode as a component is the
  outcome of the whole decode, and no name is returned; \<open>f\<close> is an error that
  \<^verbatim>\<open>DecodeNameComponent\<close> returns, or its panic. When every subelement decodes, the
  name's components are (copies of) the decoded subelements, in order. The subelements
  are those the block has after \<^verbatim>\<open>Parse\<close>.
\<close>

lemma DecodeName_outcomes:
  "(btype b \<noteq> tlv_Name \<longrightarrow> DecodeName (Some b) = Inl (Error tlv_ErrUnrecognized))
   \<and> (btype b = tlv_Name
        \<and> bsubelements (fst (Block_Parse b)) = pre @ elem # post
        \<and> list_all (\<lambda>e. \<exists>c. DecodeNameComponent (Some e) = Inr c) pre
        \<and> DecodeNameComponent (Some elem) = Inl f
      \<longrightarrow> DecodeName (Some b) = Inl f)
   \<and> (btype b = tlv_Name
        \<and> list_all2 (\<lambda>e c. DecodeNameComponent (Some e) = Inr c)
             (bsubelements (fst (Block_Parse b))) cs
      \<longrightarrow> (\<exists>n. DecodeName (Some b) = Inr n \<and> components n = map DeepCopy cs))"
proof (intro conjI impI)
  assume "btype b \<noteq> tlv_Name"
  then show "DecodeName (Some b) = Inl (Error tlv_ErrUnrecognized)"
    by (simp add: DecodeName_def Block_Wire_def)
next
  assume a: "btype b = tlv_Name
        \<and> bsubelements (fst (Block_Parse b)) = pre @ elem # post
        \<and> list_all (\<lambda>e. \<exists>c. DecodeNameComponent (Some e) = Inr c) pre
        \<and> DecodeNameComponent (Some elem) = Inl f"
  then have "DecodeName_loop NewName (fst (parseBlocks (bvalue b))) = Inl f"
    by (auto simp: Block_Parse_def DecodeName_loop_fail split: prod.splits)
  with a show "DecodeName (Some b) = Inl f"
    by (simp add: DecodeName_def Block_Wire_def Block_Parse_def split: prod.splits)
next
  assume a: "btype b = tlv_Name
        \<and> list_all2 (\<lambda>e c. DecodeNameComponent (Some e) = Inr c)
             (bsubelements (fst (Block_Parse b))) cs"
  then have "DecodeName_loop NewName (fst (parseBlocks (bvalue b))) =
      Inr \<lparr>components = components NewName @ map DeepCopy cs, wire = emptyBlock\<rparr>"
    by (intro DecodeName_loop_ok) (auto simp: Block_Parse_def NewName_def split: prod.splits)
  with a show "\<exists>n. DecodeName (Some b) = Inr n \<and> components n = map DeepCopy cs"
    by (simp add: DecodeName_def Block_Wire_def Block_Parse_def NewName_def Let_def
        split: prod.splits)
qed

lemma DecodeName_outcomes_examples:
  "btype wrong_type_block \<noteq> tlv_Name
   \<and> DecodeName (Some wrong_type_block) = Inl (Error tlv_ErrUnrecognized)
   \<and> btype empty_component_block = tlv_Name
   \<and> DecodeNameComponent (Some (Block 0x08 [] [] None)) = Inl (Error tlv_ErrBufferTooShort)
   \<and> DecodeName (Some empty_component_block) = Inl (Error tlv_ErrBufferTooShort)
   \<and> btype test_block = tlv_Name
   \<and> DecodeName (Some test_block) = Inr test_name
   \<and> components test_name = map DeepCopy [comp_go, comp_ndn, comp_seg170]"
proof -
  have a1: "btype wrong_type_block \<noteq> tlv_Name"
    by (simp add: test_defs NewBlock_def tlv_codes)
  have b1: "btype empty_component_block = tlv_Name"
    by (simp add: test_defs NewBlock_def tlv_codes)
  have b2: "bsubelements (fst (Block_Parse empty_component_block)) =
      [Block 0x08 [0x67, 0x6f] [] None] @ Block 0x08 [] [] None # []"
    by (simp add: test_defs Block_Parse_def parse_eval)
  have b3: "list_all (\<lambda>e. \<exists>c. DecodeNameComponent (Some e) = Inr c)
      [Block 0x08 [0x67, 0x6f] [] None]"
    by (simp add: component_eval)
  have b4: "DecodeNameComponent (Some (Block 0x08 [] [] None)) =
      Inl (Error tlv_ErrBufferTooShort)"
    by (simp add: component_eval)
  have c1: "btype test_block = tlv_Name"
    by (simp add: test_defs NewBlock_def tlv_codes)
  have c2: "list_all2 (\<lambda>e c. DecodeNameComponent (Some e) = Inr c)
      (bsubelements (fst (Block_Parse test_block))) [comp_go, comp_ndn, comp_seg170]"
    by (simp add: test_defs Block_Parse_def parse_eval component_eval)
  have A: "DecodeName (Some wrong_type_block) = Inl (Error tlv_ErrUnrecognized)"
    using DecodeName_outcomes[where b = wrong_type_block] a1 by blast
  have B: "DecodeName (Some empty_component_block) = Inl (Error tlv_ErrBufferTooShort)"
    using DecodeName_outcomes[where b = empty_component_block
        and pre = "[Block 0x08 [0x67, 0x6f] [] None]" and elem = "Block 0x08 [] [] None"
        and post = "[]" and f = "Error tlv_ErrBufferTooShort"] b1 b2 b3 b4
    by blast
  have C: "\<exists>n. DecodeName (Some test_block) = Inr n
      \<and> components n = map DeepCopy [comp_go, comp_ndn, comp_seg170]"
    using DecodeName_outcomes[where b = test_block
        and cs = "[comp_go, comp_ndn, comp_seg170]"] c1 c2
    by blast
  from C have C': "components test_name = map DeepCopy [comp_go, comp_ndn, comp_seg170]"
    by (simp add: decode_test_block)
  from a1 A b1 b4 B c1 C' show ?thesis by (simp add: decode_test_block)
qed

section \<open>Claims\<close>

text \<open>
  C1. \<^verbatim>\<open>Compare\<close> returns -1, 0 or 1 and is a total order on names up to
  \<^verbatim>\<open>Equals\<close>: it is antisymmetric (\<open>Compare a b = - Compare b a\<close>), it is 0 exactly
  when \<^verbatim>\<open>a.Equals(b)\<close>, a strict prefix compares less than the name it is a prefix
  of, and it is transitive. The pairwise comparison by value length, value bytes and
  type code is its definition, taken from the spec.
\<close>

theorem C1_Compare_total_order:
  "Compare a b \<in> {-1, 0, 1}
   \<and> Compare a b = - Compare b a
   \<and> (Compare a b = 0 \<longleftrightarrow> Equals a (Some b) = Inr True)
   \<and> (PrefixOf a (Some b) = Inr True \<and> Size a < Size b \<longrightarrow> Compare a b = -1)
   \<and> (Compare a b = -1 \<and> Compare b c = -1 \<longrightarrow> Compare a c = -1)"
proof -
  have 1: "Compare a b \<in> {-1, 0, 1}"
    unfolding Compare_def by (rule compare_components_range)
  have 2: "Compare a b = - Compare b a"
    unfolding Compare_def by (rule compare_components_antisym)
  have 3: "Compare a b = 0 \<longleftrightarrow> Equals a (Some b) = Inr True"
    by (simp add: Compare_def compare_components_eq Equals_eq)
  have 4: "PrefixOf a (Some b) = Inr True \<and> Size a < Size b \<longrightarrow> Compare a b = -1"
    by (auto simp: Compare_def PrefixOf_eq Size_def intro: compare_components_prefix)
  have 5: "Compare a b = -1 \<and> Compare b c = -1 \<longrightarrow> Compare a c = -1"
    unfolding Compare_def by (blast intro: compare_components_trans)
  from 1 2 3 4 5 show ?thesis by blast
qed

theorem C1_Compare_total_order_witness:
  "PrefixOf name_go_ndn (Some test_name) = Inr True \<and> Size name_go_ndn < Size test_name
   \<and> Compare name_go_ndn test_name = -1 \<and> Compare test_name name_go_ndn = 1
   \<and> Compare test_name name_ndn = -1 \<and> Compare name_go_ndn name_ndn = -1
   \<and> Equals test_name (Some test_name) = Inr True \<and> Compare test_name test_name = 0"
proof -
  have p: "PrefixOf name_go_ndn (Some test_name) = Inr True"
    by (simp add: PrefixOf_eq same_component_def test_defs)
  have s: "Size name_go_ndn < Size test_name"
    by (simp add: Size_def test_defs)
  have ab: "Compare name_go_ndn test_name = -1"
    using C1_Compare_total_order[of name_go_ndn test_name name_ndn] p s by blast
  have ba: "Compare test_name name_go_ndn = 1"
    using C1_Compare_total_order[of test_name name_go_ndn name_ndn] ab by simp
  have bc: "Compare test_name name_ndn = -1"
    by (simp add: test_defs name_ndn_def compare_eval)
  have ac: "Compare name_go_ndn name_ndn = -1"
    using C1_Compare_total_order[of name_go_ndn test_name name_ndn] ab bc by blast
  have e: "Equals test_name (Some test_name) = Inr True"
    by (simp add: Equals_eq list_all2_same_refl)
  have z: "Compare test_name test_name = 0"
    using C1_Compare_total_order[of test_name test_name name_ndn] e by blast
  from p s ab ba bc ac e z show ?thesis by simp
qed

text \<open>
  C2. Round trip. For a valid name whose encoding is a Go slice, decoding the block
  that \<^verbatim>\<open>Wire\<close> returns gives a name that \<^verbatim>\<open>Equals\<close> the original, and \<^verbatim>\<open>Wire\<close> of
  the decoded name gives the same bytes.
\<close>

theorem C2_round_trip:
  assumes "valid_name n" and "go_slice (wire_bytes (snd (Name_Wire n)))"
  shows "\<exists>n'. DecodeName (Some (snd (Name_Wire n))) = Inr n'
          \<and> Equals n' (Some n) = Inr True
          \<and> wire_bytes (snd (Name_Wire n')) = wire_bytes (snd (Name_Wire n))"
proof (cases "HasWire n")
  case True
  then have w: "Name_Wire n = (n, wire n)" by (rule Name_Wire_fresh)
  from assms(1) True obtain n' where n': "DecodeName (Some (wire n)) = Inr n'"
    "Equals n' (Some n) = Inr True"
    by (auto simp: valid_name_def cache_current_def split: sum.splits)
  from n'(1) have "wire_bytes (snd (Name_Wire n')) = wire_bytes (wire n)"
    using DecodeName_bytes by blast
  with n' w show ?thesis by simp
next
  case False
  from assms(1) have v: "list_all valid_component (components n)"
    by (simp add: valid_name_def)
  with False have w: "snd (Name_Wire n) = name_block (components n)"
    by (simp add: Name_Wire_stale)
  with assms(2) have "go_slice (Block_encode (name_block (components n)))"
    by (simp add: wire_bytes_eq)
  with v obtain n' where n': "DecodeName (Some (name_block (components n))) = Inr n'"
    "list_all2 same_component (components n') (components n)"
    using DecodeName_name_block by blast
  from n'(1) have "wire_bytes (snd (Name_Wire n')) = wire_bytes (name_block (components n))"
    using DecodeName_bytes by blast
  with n' w show ?thesis by (simp add: Equals_eq)
qed

theorem C2_round_trip_witness:
  "valid_name name_go_ndn
   \<and> go_slice (wire_bytes (snd (Name_Wire name_go_ndn)))
   \<and> wire_bytes (snd (Name_Wire name_go_ndn)) =
       [0x07, 0x09, 0x08, 0x02, 0x67, 0x6f, 0x08, 0x03, 0x6e, 0x64, 0x6e]
   \<and> (case DecodeName (Some (snd (Name_Wire name_go_ndn))) of
         Inr n' \<Rightarrow> Equals n' (Some name_go_ndn) = Inr True
                  \<and> wire_bytes (snd (Name_Wire n')) = wire_bytes (snd (Name_Wire name_go_ndn))
       | Inl f \<Rightarrow> False)
   \<and> valid_name test_name
   \<and> go_slice (wire_bytes (snd (Name_Wire test_name)))
   \<and> (case DecodeName (Some (snd (Name_Wire test_name))) of
         Inr n' \<Rightarrow> Equals n' (Some test_name) = Inr True
                  \<and> wire_bytes (snd (Name_Wire n')) = wire_bytes (snd (Name_Wire test_name))
       | Inl f \<Rightarrow> False)"
proof -
  have st: "\<not> HasWire name_go_ndn"
    by (simp add: HasWire_def name_go_ndn_def emptyBlock_def Block_HasWire_def)
  have vc: "list_all valid_component (components name_go_ndn)"
    by (simp add: name_go_ndn_def valid_test_components)
  from st vc have v: "valid_name name_go_ndn"
    by (simp add: valid_name_def cache_current_def)
  have b: "wire_bytes (snd (Name_Wire name_go_ndn)) =
       [0x07, 0x09, 0x08, 0x02, 0x67, 0x6f, 0x08, 0x03, 0x6e, 0x64, 0x6e]"
    unfolding Name_Wire_stale[OF st vc] wire_bytes_eq
    by (simp add: name_block_def name_payload_def comp_block_def NewBlock_def Block_encode_def
        encodeVarNum_def tlv_codes test_defs)
  then have g: "go_slice (wire_bytes (snd (Name_Wire name_go_ndn)))"
    by (simp add: go_slice_def)
  have v2: "valid_name test_name"
    using decode_test_block by (rule valid_name_DecodeName)
  have g2: "go_slice (wire_bytes (snd (Name_Wire test_name)))"
    by (simp add: Name_Wire_def HasWire_def Block_HasWire_def wire_bytes_eq go_slice_def
        test_name_def)
  from C2_round_trip[OF v g] C2_round_trip[OF v2 g2] v g b v2 g2 show ?thesis
    by auto
qed

text \<open>
  C3. \<^verbatim>\<open>Prefix(n)\<close> is documented to return a copy of the whole name when \<open>n\<close> is
  greater than or equal to the name's size. For \<open>n\<close> beyond the size the loop reads
  \<^verbatim>\<open>n.components[i]\<close> past the end and panics (\<open>Prefix_eq\<close> gives every case): on the
  empty name, \<^verbatim>\<open>Prefix(1)\<close> returns no name.
\<close>

theorem C3_Prefix_beyond_size_panics:
  "Prefix NewName 1 = Inl Panic"
  by (simp add: Prefix_eq Size_def NewName_def)

text \<open>
  C4. For the five fixed-width numeric codes the value is read with
  \<^verbatim>\<open>binary.BigEndian.Uint64\<close> and its length is not checked: a segment component of
  3 bytes makes \<^verbatim>\<open>DecodeNameComponent\<close> panic instead of returning an error, and one
  of 9 bytes is accepted, the ninth byte dropped.
\<close>

theorem C4_fixed_width_length_unchecked:
  "DecodeNameComponent (Some (NewBlock tlv_SegmentNameComponent [1, 2, 3])) = Inl Panic
   \<and> DecodeNameComponent
        (Some (NewBlock tlv_SegmentNameComponent [1, 2, 3, 4, 5, 6, 7, 8, 9])) =
      Inr \<lparr>variant = Segment, tlvType = tlv_SegmentNameComponent,
           cvalue = [1, 2, 3, 4, 5, 6, 7, 8], cwire = None\<rparr>"
  by (simp add: NewBlock_def component_eval)

text \<open>
  C5. \<^verbatim>\<open>DecodeName\<close> is to return the component's error and no name when a
  subelement does not decode. On the Name block \<^verbatim>\<open>07 09 08 02 67 6f 21 03 01 02 03\<close>
  the second subelement is a segment component of 3 bytes: \<^verbatim>\<open>DecodeNameComponent\<close>
  panics on it (the unchecked length of C4), nothing in the loop of \<^verbatim>\<open>DecodeName\<close>
  recovers, and the decode returns neither an error nor a name.
\<close>

theorem C5_DecodeName_panics_on_short_segment:
  "btype short_segment_block = tlv_Name
   \<and> bsubelements (fst (Block_Parse short_segment_block)) =
       [Block 0x08 [0x67, 0x6f] [] None, Block 0x21 [0x01, 0x02, 0x03] [] None]
   \<and> DecodeNameComponent (Some (Block 0x21 [0x01, 0x02, 0x03] [] None)) = Inl Panic
   \<and> DecodeName (Some short_segment_block) = Inl Panic"
  by (simp add: test_defs name_eval component_eval)

text \<open>
  C6, as the claim states it, fails: \<^verbatim>\<open>Clear\<close> resets the wire only when the name has
  components, so on an empty name that has been encoded \<^verbatim>\<open>HasWire\<close> is still true
  after \<^verbatim>\<open>Clear\<close>.
\<close>

theorem C6_counterexample:
  "HasWire (fst (Name_Wire NewName)) \<and> HasWire (Clear (fst (Name_Wire NewName)))"
  by (simp add: Name_Wire_def NewName_def emptyBlock_def Block_HasWire_def Block_Reset_def
      Block_SetType_def Block_Wire_def HasWire_def Clear_def Let_def)

text \<open>
  C6, amended. A new name has no wire; after \<^verbatim>\<open>Wire\<close> the name has one, and
  \<^verbatim>\<open>Wire\<close> on a name that has one leaves the name as it is; the name has no wire after
  \<^verbatim>\<open>Append\<close> of a component, after \<^verbatim>\<open>Set\<close> and \<^verbatim>\<open>Erase\<close> at an index within the
  name, and after \<^verbatim>\<open>Clear\<close> of a name with components; \<^verbatim>\<open>Clear\<close> of an empty name
  changes nothing; a decoded name has a wire.
\<close>

theorem C6_wire_cache_states:
  "\<not> HasWire NewName
   \<and> HasWire (fst (Name_Wire n))
   \<and> (HasWire n \<longrightarrow> fst (Name_Wire n) = n)
   \<and> (\<exists>n'. Append n (Some c) = Inr n' \<and> \<not> HasWire n')
   \<and> (0 \<le> i \<and> i < Size n \<longrightarrow> (\<exists>n'. Set n i (Some c) = Inr n' \<and> \<not> HasWire n'))
   \<and> (0 \<le> i \<and> i < Size n \<longrightarrow> \<not> HasWire (Erase n i))
   \<and> (0 < Size n \<longrightarrow> \<not> HasWire (Clear n))
   \<and> (Size n = 0 \<longrightarrow> Clear n = n)
   \<and> (DecodeName b = Inr m \<longrightarrow> HasWire m)"
proof -
  have stale: "\<not> Block_HasWire (Block_Reset w)" for w
    by (simp add: Block_Reset_def emptyBlock_def Block_HasWire_def)
  have 1: "\<not> HasWire NewName"
    by (simp add: HasWire_def NewName_def emptyBlock_def Block_HasWire_def)
  have 2: "HasWire (fst (Name_Wire n))" by (rule Name_Wire_HasWire)
  have 3: "HasWire n \<longrightarrow> fst (Name_Wire n) = n" by (simp add: Name_Wire_fresh)
  have 4: "\<exists>n'. Append n (Some c) = Inr n' \<and> \<not> HasWire n'"
    by (simp add: Append_def HasWire_def stale)
  have 5: "0 \<le> i \<and> i < Size n \<longrightarrow> (\<exists>n'. Set n i (Some c) = Inr n' \<and> \<not> HasWire n')"
    by (simp add: Set_def Size_def HasWire_def stale)
  have 6: "0 \<le> i \<and> i < Size n \<longrightarrow> \<not> HasWire (Erase n i)"
    by (simp add: Erase_def Size_def HasWire_def stale)
  have 7: "0 < Size n \<longrightarrow> \<not> HasWire (Clear n)"
    by (simp add: Clear_def Size_def HasWire_def stale)
  have 8: "Size n = 0 \<longrightarrow> Clear n = n"
    by (simp add: Clear_def Size_def)
  have 9: "DecodeName b = Inr m \<longrightarrow> HasWire m"
  proof
    assume d: "DecodeName b = Inr m"
    then obtain b0 where "b = Some b0" by (cases b) (auto simp: DecodeName_def)
    with d show "HasWire m"
      by (simp add: DecodeName_wire HasWire_def Block_HasWire_def)
  qed
  from 1 2 3 4 5 6 7 8 9 show ?thesis by blast
qed

theorem C6_wire_cache_states_witness:
  "\<not> HasWire NewName
   \<and> HasWire test_name \<and> fst (Name_Wire test_name) = test_name
   \<and> (0::int) \<le> 1 \<and> 1 < Size test_name
   \<and> (case Set test_name 1 (Some comp_go) of Inr n' \<Rightarrow> \<not> HasWire n' | Inl f \<Rightarrow> False)
   \<and> \<not> HasWire (Erase test_name 1)
   \<and> \<not> HasWire (Clear test_name)
   \<and> Size NewName = 0 \<and> Clear NewName = NewName
   \<and> DecodeName (Some test_block) = Inr test_name"
proof -
  have sz: "Size test_name = 3" "Size NewName = 0"
    by (simp_all add: Size_def test_name_def NewName_def)
  then show ?thesis
    using C6_wire_cache_states[of test_name comp_go 1 "Some test_block" test_name]
      C6_wire_cache_states[of NewName comp_go 1 "Some test_block" test_name]
      decode_test_block
    by auto
qed

text \<open>
  C7. A name that \<^verbatim>\<open>DecodeName\<close> returns has a wire at once, and \<^verbatim>\<open>Wire\<close>, called
  before any mutation, returns a block whose bytes are those of the decoded block.
\<close>

theorem C7_decoded_name_keeps_block_bytes:
  assumes "DecodeName (Some b) = Inr n"
  shows "HasWire n \<and> wire_bytes (snd (Name_Wire n)) = wire_bytes b"
  using assms by (rule DecodeName_bytes)

theorem C7_decoded_name_keeps_block_bytes_witness:
  "DecodeName (Some test_block) = Inr test_name
   \<and> HasWire test_name
   \<and> wire_bytes (snd (Name_Wire test_name)) = wire_bytes test_block"
  using C7_decoded_name_keeps_block_bytes[OF decode_test_block] decode_test_block by simp

text \<open>
  C8. A digest value that is not 32 bytes long is refused, but the error is
  \<^verbatim>\<open>util.ErrTooShort\<close> ("Value too short") also for a value that is too long: for 33
  bytes both digest constructors return it, not \<^verbatim>\<open>util.ErrTooLong\<close>.
\<close>

theorem C8_digest_too_long_reports_TooShort:
  "NewImplicitSha256DigestComponent (replicate 33 0) = Inl (Error util_ErrTooShort)
   \<and> NewParametersSha256DigestComponent (replicate 33 0) = Inl (Error util_ErrTooShort)"
  by (simp add: NewImplicitSha256DigestComponent_def NewParametersSha256DigestComponent_def)

text \<open>
  C9. The prefix laws: every name is a prefix of itself; a name of size 0 is a prefix
  of every name; a prefix of a name of the same size \<^verbatim>\<open>Equals\<close> it.
\<close>

theorem C9_prefix_laws:
  "PrefixOf a (Some a) = Inr True
   \<and> (Size e = 0 \<longrightarrow> PrefixOf e (Some b) = Inr True)
   \<and> (PrefixOf a (Some b) = Inr True \<and> Size a = Size b \<longrightarrow> Equals a (Some b) = Inr True)"
  by (auto simp: PrefixOf_eq Equals_eq Size_def list_all2_same_refl)

theorem C9_prefix_laws_witness:
  "Size NewName = 0
   \<and> PrefixOf NewName (Some (Name_DeepCopy test_name)) = Inr True
   \<and> PrefixOf test_name (Some (Name_DeepCopy test_name)) = Inr True
   \<and> Size test_name = Size (Name_DeepCopy test_name)
   \<and> Equals test_name (Some (Name_DeepCopy test_name)) = Inr True"
proof -
  have h1: "Size NewName = 0" by (simp add: Size_def NewName_def)
  have h2: "PrefixOf test_name (Some (Name_DeepCopy test_name)) = Inr True"
    by (simp add: PrefixOf_eq Name_DeepCopy_def DeepCopy_def same_component_def Type_def
        Value_def test_defs)
  have h3: "Size test_name = Size (Name_DeepCopy test_name)"
    by (simp add: Size_def Name_DeepCopy_def)
  show ?thesis
    using C9_prefix_laws[of test_name NewName "Name_DeepCopy test_name"] h1 h2 h3 by simp
qed

text \<open>
  C10. \<^verbatim>\<open>DeepCopy\<close> of a name returns a name that \<^verbatim>\<open>Equals\<close> the original and has
  no wire, whether or not the original had one.
\<close>

theorem C10_DeepCopy_equal_and_stale:
  "Equals (Name_DeepCopy n) (Some n) = Inr True \<and> \<not> HasWire (Name_DeepCopy n)"
proof -
  have "list_all2 same_component (map DeepCopy (components n)) (components n)"
    by (simp add: list_all2_map1 list_all2_refl same_component_DeepCopy)
  then show ?thesis
    by (simp add: Equals_eq Name_DeepCopy_def HasWire_def emptyBlock_def Block_HasWire_def)
qed

end
